theory Spec2Isabelle
  imports Complex_Main
begin

section \<open>Python strings\<close>

text \<open>
  A Python \<^verbatim>\<open>str\<close> is a sequence of Unicode code points, modelled as a list of
  natural numbers. \<open>of_str\<close> embeds an ASCII literal.
\<close>

type_synonym pstr = "nat list"

definition of_str :: "string \<Rightarrow> pstr" where
  "of_str s = map of_char s"

text \<open>\<^verbatim>\<open>str.isspace\<close>, which is also the class \<^verbatim>\<open>\s\<close> of \<^verbatim>\<open>re\<close> on str patterns.\<close>

definition isspace :: "nat \<Rightarrow> bool" where
  "isspace c \<longleftrightarrow> (9 \<le> c \<and> c \<le> 13) \<or> (28 \<le> c \<and> c \<le> 32) \<or> c = 133 \<or> c = 160
     \<or> c = 5760 \<or> (8192 \<le> c \<and> c \<le> 8202) \<or> c = 8232 \<or> c = 8233 \<or> c = 8239
     \<or> c = 8287 \<or> c = 12288"

text \<open>
  The class \<^verbatim>\<open>\d\<close> of \<^verbatim>\<open>re\<close> on str patterns, which is also the set of digits that
  \<^verbatim>\<open>int()\<close> accepts: the code points with the Unicode property Decimal (category Nd).
  They come in runs of ten consecutive code points with the values 0 to 9;
  \<open>decimal_starts\<close> lists the first code point of every run (Unicode 14.0, the table of
  CPython 3.11), the ASCII digits first.
\<close>

definition decimal_starts :: "nat list" where
  "decimal_starts =
     [48, 1632, 1776, 1984, 2406, 2534, 2662, 2790, 2918, 3046, 3174, 3302, 3430, 3558,
      3664, 3792, 3872, 4160, 4240, 6112, 6160, 6470, 6608, 6784, 6800, 6992, 7088, 7232,
      7248, 42528, 43216, 43264, 43472, 43504, 43600, 44016, 65296, 66720, 68912, 69734,
      69872, 69942, 70096, 70384, 70736, 70864, 71248, 71360, 71472, 71904, 72016, 72784,
      73040, 73120, 92768, 92864, 93008, 120782, 120792, 120802, 120812, 120822, 123200,
      123632, 125264, 130032]"

definition isdigit :: "nat \<Rightarrow> bool" where
  "isdigit c \<longleftrightarrow> list_ex (\<lambda>b. b \<le> c \<and> c < b + 10) decimal_starts"

definition digit_value :: "nat \<Rightarrow> nat" where
  "digit_value c =
     (case find (\<lambda>b. b \<le> c \<and> c < b + 10) decimal_starts of Some b \<Rightarrow> c - b | None \<Rightarrow> 0)"

definition not_nl :: "nat \<Rightarrow> bool" where
  "not_nl c \<longleftrightarrow> c \<noteq> 10"

definition any_char :: "nat \<Rightarrow> bool" where
  "any_char c \<longleftrightarrow> True"

definition is_char :: "nat \<Rightarrow> nat \<Rightarrow> bool" where
  "is_char a c \<longleftrightarrow> c = a"

text \<open>The complement class \<^verbatim>\<open>[^\x00-\x7F\xC0-\xFF\u20AC\xA1-\xBF]\<close>.\<close>

definition non_latin :: "nat \<Rightarrow> bool" where
  "non_latin c \<longleftrightarrow> \<not> (c \<le> 127 \<or> (192 \<le> c \<and> c \<le> 255) \<or> c = 8364 \<or> (161 \<le> c \<and> c \<le> 191))"

definition lstrip :: "pstr \<Rightarrow> pstr" where
  "lstrip s = dropWhile isspace s"

definition rstrip :: "pstr \<Rightarrow> pstr" where
  "rstrip s = rev (dropWhile isspace (rev s))"

definition strip :: "pstr \<Rightarrow> pstr" where
  "strip s = rstrip (lstrip s)"

text \<open>\<^verbatim>\<open>str(n)\<close> for an integer.\<close>

fun show_nat :: "nat \<Rightarrow> pstr" where
  "show_nat n = (if n < 10 then [48 + n] else show_nat (n div 10) @ [48 + n mod 10])"

declare show_nat.simps [simp del]

definition show_int :: "int \<Rightarrow> pstr" where
  "show_int i = (if i < 0 then 45 # show_nat (nat (- i)) else show_nat (nat i))"

text \<open>
  \<^verbatim>\<open>str.upper\<close> and the case-insensitive comparison of \<^verbatim>\<open>re.IGNORECASE\<close>, exact on
  the code points below 256 (ASCII and Latin-1); other code points are left unchanged.
\<close>

definition upper_char :: "nat \<Rightarrow> pstr" where
  "upper_char c =
     (if 97 \<le> c \<and> c \<le> 122 then [c - 32]
      else if c = 181 then [924]
      else if c = 223 then [83, 83]
      else if 224 \<le> c \<and> c \<le> 254 \<and> c \<noteq> 247 then [c - 32]
      else if c = 255 then [376]
      else [c])"

definition py_upper :: "pstr \<Rightarrow> pstr" where
  "py_upper s = concat (map upper_char s)"

definition lower_char :: "nat \<Rightarrow> nat" where
  "lower_char c =
     (if 65 \<le> c \<and> c \<le> 90 then c + 32
      else if 192 \<le> c \<and> c \<le> 222 \<and> c \<noteq> 215 then c + 32
      else c)"

definition ci_eq :: "nat \<Rightarrow> nat \<Rightarrow> bool" where
  "ci_eq a b \<longleftrightarrow> lower_char a = lower_char b"

section \<open>Regular expressions as the source writes them\<close>

text \<open>
  Every pattern of the source is a sequence of atoms: a literal, one character of a class,
  a repetition of a class (greedy or lazy, with a minimum count), an anchor, or a boundary
  of the one capture group. \<open>rx_match\<close> is the backtracking matcher of \<^verbatim>\<open>re\<close>: it
  tries the alternatives of a repetition in priority order (longest first when greedy,
  shortest first when lazy) and returns the first complete match. Its state is the
  character before the current position (for \<^verbatim>\<open>^\<close>) and the text still to read; it
  returns both, with the text of group 1.
\<close>

datatype atom =
    Ch "nat \<Rightarrow> bool"
  | Lit pstr
  | LitCI pstr
  | Rep bool "nat \<Rightarrow> bool" nat
  | Bol bool
  | Eol bool
  | GOpen
  | GClose

fun first_some :: "('a \<Rightarrow> 'b option) \<Rightarrow> 'a list \<Rightarrow> 'b option" where
  "first_some f [] = None"
| "first_some f (x # xs) = (case f x of Some y \<Rightarrow> Some y | None \<Rightarrow> first_some f xs)"

definition prev_after :: "nat option \<Rightarrow> pstr \<Rightarrow> nat \<Rightarrow> nat option" where
  "prev_after prev s k = (if k = 0 \<or> length s < k then prev else Some (s ! (k - 1)))"

fun rx_match :: "atom list \<Rightarrow> nat option \<Rightarrow> pstr \<Rightarrow> pstr option \<Rightarrow> pstr option
    \<Rightarrow> (nat option \<times> pstr \<times> pstr option) option" where
  "rx_match [] prev s gs cap = Some (prev, s, cap)"
| "rx_match (Ch p # rs) prev s gs cap =
     (case s of [] \<Rightarrow> None
      | c # s' \<Rightarrow> if p c then rx_match rs (Some c) s' gs cap else None)"
| "rx_match (Lit l # rs) prev s gs cap =
     (if take (length l) s = l
      then rx_match rs (prev_after prev s (length l)) (drop (length l) s) gs cap
      else None)"
| "rx_match (LitCI l # rs) prev s gs cap =
     (if length l \<le> length s \<and> list_all2 ci_eq (take (length l) s) l
      then rx_match rs (prev_after prev s (length l)) (drop (length l) s) gs cap
      else None)"
| "rx_match (Rep greedy p lo # rs) prev s gs cap =
     (let n = length (takeWhile p s);
          ks = (if greedy then rev [lo..<Suc n] else [lo..<Suc n])
      in first_some (\<lambda>k. rx_match rs (prev_after prev s k) (drop k s) gs cap) ks)"
| "rx_match (Bol ml # rs) prev s gs cap =
     (if prev = None \<or> (ml \<and> prev = Some 10) then rx_match rs prev s gs cap else None)"
| "rx_match (Eol ml # rs) prev s gs cap =
     (if s = [] \<or> (ml \<and> take 1 s = [10]) \<or> s = [10] then rx_match rs prev s gs cap
      else None)"
| "rx_match (GOpen # rs) prev s gs cap = rx_match rs prev s (Some s) cap"
| "rx_match (GClose # rs) prev s gs cap =
     rx_match rs prev s gs
       (case gs of None \<Rightarrow> cap | Some g \<Rightarrow> Some (take (length g - length s) g))"

text \<open>
  \<^verbatim>\<open>re.sub(pattern, repl, s)\<close>: the leftmost match is replaced and the scan goes on behind
  it; where nothing matches, one character is copied. After an empty match one character
  is copied too. (The patterns of the source that can match the empty string are greedy,
  so no other match starts where they matched empty.) \<open>repl\<close> receives group 1.
\<close>

fun re_sub :: "atom list \<Rightarrow> (pstr option \<Rightarrow> pstr) \<Rightarrow> nat option \<Rightarrow> pstr \<Rightarrow> pstr" where
  "re_sub rx repl prev s =
     (case rx_match rx prev s None None of
        Some (prev', rest, cap) \<Rightarrow>
          if length rest < length s then repl cap @ re_sub rx repl prev' rest
          else repl cap @ (case s of [] \<Rightarrow> [] | c # s' \<Rightarrow> c # re_sub rx repl (Some c) s')
      | None \<Rightarrow> (case s of [] \<Rightarrow> [] | c # s' \<Rightarrow> c # re_sub rx repl (Some c) s'))"

text \<open>
  \<^verbatim>\<open>re.findall\<close> for a pattern that cannot match the empty string: the texts of group 1
  when the pattern has a group (\<open>grp\<close>), the matched texts otherwise.
\<close>

fun re_findall :: "atom list \<Rightarrow> bool \<Rightarrow> nat option \<Rightarrow> pstr \<Rightarrow> pstr list" where
  "re_findall rx grp prev s =
     (case rx_match rx prev s None None of
        Some (prev', rest, cap) \<Rightarrow>
          if length rest < length s
          then (if grp then (case cap of None \<Rightarrow> [] | Some g \<Rightarrow> g)
                else take (length s - length rest) s) # re_findall rx grp prev' rest
          else (case s of [] \<Rightarrow> [] | c # s' \<Rightarrow> re_findall rx grp (Some c) s')
      | None \<Rightarrow> (case s of [] \<Rightarrow> [] | c # s' \<Rightarrow> re_findall rx grp (Some c) s'))"

text \<open>\<^verbatim>\<open>re.search(pattern, s)\<close> as a truth value.\<close>

fun re_search :: "atom list \<Rightarrow> nat option \<Rightarrow> pstr \<Rightarrow> bool" where
  "re_search rx prev s =
     (case rx_match rx prev s None None of
        Some m \<Rightarrow> True
      | None \<Rightarrow> (case s of [] \<Rightarrow> False | c # s' \<Rightarrow> re_search rx (Some c) s'))"

text \<open>
  \<^verbatim>\<open>re.split\<close> for a pattern with one group that cannot match the empty string: the text
  before each match, then the group, and at the end the remaining text. \<open>acc\<close> is the
  text read since the last match, reversed.
\<close>

fun re_split :: "atom list \<Rightarrow> nat option \<Rightarrow> pstr \<Rightarrow> pstr \<Rightarrow> pstr list" where
  "re_split rx prev acc s =
     (case rx_match rx prev s None None of
        Some (prev', rest, cap) \<Rightarrow>
          if length rest < length s
          then rev acc # (case cap of None \<Rightarrow> [] | Some g \<Rightarrow> g) # re_split rx prev' [] rest
          else (case s of [] \<Rightarrow> [rev acc] | c # s' \<Rightarrow> re_split rx (Some c) (c # acc) s')
      | None \<Rightarrow> (case s of [] \<Rightarrow> [rev acc] | c # s' \<Rightarrow> re_split rx (Some c) (c # acc) s'))"

declare re_sub.simps [simp del] re_findall.simps [simp del] re_search.simps [simp del]
  re_split.simps [simp del]

text \<open>The patterns shared by the cleaning passes.\<close>

definition rx_think :: "atom list" where
  \<comment> \<open>\<^verbatim>\<open><think>.*?</think>\<close> with DOTALL\<close>
  "rx_think = [Lit (of_str ''<think>''), Rep False any_char 0, Lit (of_str ''</think>'')]"

definition rx_non_latin :: "atom list" where
  \<comment> \<open>\<^verbatim>\<open>[^\x00-\x7F\xC0-\xFF\u20AC\xA1-\xBF]+\<close>\<close>
  "rx_non_latin = [Rep True non_latin 1]"

definition rx_blank_lines :: "atom list" where
  \<comment> \<open>\<^verbatim>\<open>\n\s*\n\s*\n+\<close>\<close>
  "rx_blank_lines =
     [Ch (is_char 10), Rep True isspace 0, Ch (is_char 10), Rep True isspace 0,
      Rep True (is_char 10) 1]"

definition del :: "pstr option \<Rightarrow> pstr" where
  "del cap = []"

definition two_newlines :: "pstr option \<Rightarrow> pstr" where
  "two_newlines cap = [10, 10]"

section \<open>Section generation (tools/generation\_tools.py)\<close>

text \<open>
  \<open>clean_section_content\<close>: the four substitutions in the order of the source, then
  \<^verbatim>\<open>strip()\<close>.
\<close>

definition rx_heading_line :: "atom list" where
  \<comment> \<open>\<^verbatim>\<open>^#+\s+.*\n\<close> with MULTILINE\<close>
  "rx_heading_line =
     [Bol True, Rep True (is_char 35) 1, Rep True isspace 1, Rep True not_nl 0, Ch (is_char 10)]"

definition clean_section_content :: "pstr \<Rightarrow> pstr" where
  "clean_section_content content =
     (let c1 = re_sub rx_think del None content;
          c2 = re_sub rx_non_latin del None c1;
          c3 = re_sub rx_blank_lines two_newlines None c2;
          c4 = re_sub rx_heading_line del None c3
      in strip c4)"

text \<open>
  \<open>generate_section\<close> receives its parameters as a JSON string that the caller has just
  built with \<^verbatim>\<open>json.dumps\<close>; the model passes the fields it reads. Everything inside
  its \<^verbatim>\<open>try\<close> block before the cleaning (the retrieval of similar proposals, the prompt,
  the call of the language model) is the generation backend: a function of the request that
  returns the model's response (\<open>Inr\<close>) or the message of the exception raised (\<open>Inl\<close>).
\<close>

record gen_request =
  req_section_name :: pstr
  req_description :: pstr
  req_info :: pstr
  req_previous_content :: pstr

type_synonym backend = "gen_request \<Rightarrow> pstr + pstr"

definition seccion :: pstr where
  \<comment> \<open>the word \<^verbatim>\<open>seccion\<close> with an acute accent on the o\<close>
  "seccion = of_str ''secci'' @ [243] @ of_str ''n''"

definition generate_section :: "backend \<Rightarrow> gen_request \<Rightarrow> pstr" where
  "generate_section llm req =
     (case llm req of
        Inr response \<Rightarrow>
          of_str ''## '' @ req_section_name req @ [10, 10] @ clean_section_content response
      | Inl e \<Rightarrow>
          (let error_message =
                 of_str ''Error al generar '' @ seccion @ of_str '' '' @ req_section_name req
                   @ of_str '': '' @ e
           in of_str ''Error en '' @ seccion @ of_str '' '' @ req_section_name req
                @ of_str '': '' @ error_message))"

section \<open>The section node (nodes/section\_node.py)\<close>

definition rx_h2_line :: "atom list" where
  \<comment> \<open>\<^verbatim>\<open>^##\s+.*?\n\<close> with MULTILINE\<close>
  "rx_h2_line =
     [Bol True, Lit (of_str ''##''), Rep True isspace 1, Rep False not_nl 0, Ch (is_char 10)]"

definition rx_h3_title :: "atom list" where
  \<comment> \<open>\<^verbatim>\<open>^###\s+(.*?)$\<close> with MULTILINE\<close>
  "rx_h3_title =
     [Bol True, Lit (of_str ''###''), Rep True isspace 1, GOpen, Rep False not_nl 0, GClose,
      Eol True]"

definition subsection_repl :: "int \<Rightarrow> pstr option \<Rightarrow> pstr" where
  \<comment> \<open>the template \<^verbatim>\<open>### {section_number}.\1\<close>\<close>
  "subsection_repl section_number cap =
     of_str ''### '' @ show_int section_number @ of_str ''.''
       @ (case cap of None \<Rightarrow> [] | Some g \<Rightarrow> g)"

definition improve_section_content :: "pstr \<Rightarrow> pstr \<Rightarrow> int \<Rightarrow> pstr" where
  "improve_section_content content section_name section_number =
     (let c1 = re_sub rx_think del None content;
          c2 = re_sub rx_non_latin del None c1;
          formatted_title =
            of_str ''## '' @ show_int section_number @ of_str ''. '' @ py_upper section_name;
          content_without_header = re_sub rx_h2_line del None c2;
          content_with_normalized_subsections =
            re_sub rx_h3_title (subsection_repl section_number) None content_without_header;
          content_clean =
            re_sub rx_blank_lines two_newlines None content_with_normalized_subsections
      in formatted_title @ [10, 10] @ strip content_clean)"

text \<open>
  The agent state is a dictionary; a key that may be absent is an option. The index and the
  generated content are dictionaries in insertion order. The control token \<^verbatim>\<open>next_step\<close>
  is one of four strings.
\<close>

datatype step = Generate_sections | Combine_proposal | Evaluate_proposal | End_step

datatype py_error = IndexError

record agent_state =
  index :: "(pstr \<times> pstr) list option"
  tdr_info :: "pstr option"
  current_section_index :: "int option"
  generated_content :: "(pstr \<times> pstr) list option"
  sections :: "pstr list option"
  messages :: "pstr list"
  next_step :: "step option"

fun dict_set :: "('k \<times> 'v) list \<Rightarrow> 'k \<Rightarrow> 'v \<Rightarrow> ('k \<times> 'v) list" where
  "dict_set [] k v = [(k, v)]"
| "dict_set ((k', v') # d) k v = (if k' = k then (k, v) # d else (k', v') # dict_set d k v)"

definition dict_get :: "('k \<times> 'v) list \<Rightarrow> 'k \<Rightarrow> 'v option" where
  "dict_get d k = map_of d k"

text \<open>\<^verbatim>\<open>xs[i]\<close>: a negative index counts from the end; out of range raises.\<close>

definition py_index :: "'a list \<Rightarrow> int \<Rightarrow> py_error + 'a" where
  "py_index xs i =
     (if 0 \<le> i \<and> i < int (length xs) then Inr (xs ! nat i)
      else if i < 0 \<and> - int (length xs) \<le> i then Inr (xs ! nat (int (length xs) + i))
      else Inl IndexError)"

definition get_sections :: "agent_state \<Rightarrow> pstr list" where
  \<comment> \<open>\<^verbatim>\<open>state.get("sections", [])\<close>\<close>
  "get_sections st = (case sections st of None \<Rightarrow> [] | Some xs \<Rightarrow> xs)"

definition get_current_index :: "agent_state \<Rightarrow> int" where
  \<comment> \<open>\<^verbatim>\<open>state.get("current_section_index", 0)\<close>\<close>
  "get_current_index st = (case current_section_index st of None \<Rightarrow> 0 | Some i \<Rightarrow> i)"

definition get_generated_content :: "agent_state \<Rightarrow> (pstr \<times> pstr) list" where
  "get_generated_content st = (case generated_content st of None \<Rightarrow> [] | Some d \<Rightarrow> d)"

fun previous_context :: "pstr \<Rightarrow> (pstr \<times> pstr) list \<Rightarrow> pstr" where
  \<comment> \<open>the loop that collects at most about 3000 characters of earlier sections\<close>
  "previous_context acc [] = acc"
| "previous_context acc ((prev_section, content) # d) =
     previous_context
       (if length acc < 3000
        then acc @ of_str ''## '' @ prev_section @ [10, 10] @ content @ [10, 10]
        else acc) d"

definition minimal_section :: "int \<Rightarrow> pstr \<Rightarrow> pstr" where
  \<comment> \<open>the placeholder section\<close>
  "minimal_section current_index section_name =
     of_str ''## '' @ show_int (current_index + 1) @ of_str ''. '' @ py_upper section_name
       @ [10, 10] @ of_str ''[Esta '' @ seccion
       @ of_str '' no pudo generarse correctamente. Por favor, revise los logs para m''
       @ [225] @ of_str ''s detalles.]''"

definition rx_header :: "pstr \<Rightarrow> atom list" where
  \<comment> \<open>\<^verbatim>\<open>^##\s+\d+\.\s+\<close> followed by the escaped upper-case name, with IGNORECASE\<close>
  "rx_header section_name =
     [Bol False, Lit (of_str ''##''), Rep True isspace 1, Rep True isdigit 1, Ch (is_char 46),
      Rep True isspace 1, LitCI (py_upper section_name)]"

definition msg_missing :: pstr where
  "msg_missing = of_str ''Error: Faltan datos necesarios para generar secciones''"

definition msg_all_done :: pstr where
  "msg_all_done = of_str ''Todas las secciones han sido generadas exitosamente''"

definition msg_generated :: "int \<Rightarrow> nat \<Rightarrow> pstr \<Rightarrow> pstr" where
  "msg_generated current_index n_sections section_name =
     of_str ''Secci'' @ [243] @ of_str ''n '' @ show_int (current_index + 1) @ of_str ''/''
       @ show_nat n_sections @ of_str '' ('' @ section_name @ of_str '') generada''"

definition record_section :: "agent_state \<Rightarrow> int \<Rightarrow> pstr \<Rightarrow> pstr \<Rightarrow> agent_state" where
  \<comment> \<open>the branch on the result of \<open>generate_section\<close>\<close>
  "record_section state current_index section_name section_content =
     (if take 6 section_content = of_str ''Error:''
      then state\<lparr>messages := messages state @ [section_content],
                  sections := Some (get_sections state
                                      @ [minimal_section current_index section_name])\<rparr>
      else
        let improved_section =
              improve_section_content section_content section_name (current_index + 1);
            content_without_header =
              re_sub (rx_header section_name) del None improved_section
        in state\<lparr>sections := Some (get_sections state @ [improved_section]),
                    generated_content :=
                      Some (dict_set (get_generated_content state) section_name
                              (strip content_without_header))\<rparr>)"

definition generate_sections_node :: "backend \<Rightarrow> agent_state \<Rightarrow> py_error + agent_state" where
  "generate_sections_node llm state =
     (let current_index = get_current_index state in
      case (index state, tdr_info state) of
        (Some idx, Some info) \<Rightarrow>
          if idx = [] \<or> info = []
          then Inr (state\<lparr>messages := messages state @ [msg_missing],
                           next_step := Some End_step\<rparr>)
          else
            let state1 = (case generated_content state of
                            None \<Rightarrow> state\<lparr>generated_content := Some []\<rparr>
                          | Some d \<Rightarrow> state);
                section_names = map fst idx
            in if current_index \<ge> int (length section_names)
               then Inr (state1\<lparr>messages := messages state1 @ [msg_all_done],
                                 next_step := Some Combine_proposal\<rparr>)
               else (case py_index section_names current_index of
                 Inl e \<Rightarrow> Inl e
               | Inr section_name \<Rightarrow>
                   let section_description =
                         (case dict_get idx section_name of None \<Rightarrow> [] | Some d \<Rightarrow> d);
                       previously_generated =
                         previous_context [] (get_generated_content state1);
                       section_content =
                         generate_section llm
                           \<lparr>req_section_name = section_name,
                            req_description = section_description,
                            req_info = info,
                            req_previous_content = previously_generated\<rparr>;
                       state2 = record_section state1 current_index section_name section_content
                   in Inr (state2\<lparr>messages := messages state2
                                      @ [msg_generated current_index (length section_names)
                                           section_name],
                                    current_section_index := Some (current_index + 1),
                                    next_step := Some Generate_sections\<rparr>))
      | _ \<Rightarrow> Inr (state\<lparr>messages := messages state @ [msg_missing],
                        next_step := Some End_step\<rparr>))"

section \<open>The numbering rules of the validator (tools/proposal\_validator.py)\<close>

text \<open>
  \<^verbatim>\<open>int(m)\<close> for a text of decimal digits. A text of more than 4300 digits raises
  \<^verbatim>\<open>ValueError\<close> (the default of \<^verbatim>\<open>sys.int_max_str_digits\<close>): the result \<open>None\<close>.
\<close>

definition int_of_digits :: "pstr \<Rightarrow> nat" where
  "int_of_digits s = foldl (\<lambda>a c. 10 * a + digit_value c) 0 s"

definition py_int :: "pstr \<Rightarrow> nat option" where
  "py_int s = (if 4300 < length s then None else Some (int_of_digits s))"

definition rx_chapter :: "atom list" where
  \<comment> \<open>\<^verbatim>\<open>##\s+(\d+)\.\<close>\<close>
  "rx_chapter =
     [Lit (of_str ''##''), Rep True isspace 1, GOpen, Rep True isdigit 1, GClose, Ch (is_char 46)]"

definition rx_subsection :: "atom list" where
  \<comment> \<open>\<^verbatim>\<open>###\s+(\d+\.\d+)\<close>\<close>
  "rx_subsection =
     [Lit (of_str ''###''), Rep True isspace 1, GOpen, Rep True isdigit 1, Ch (is_char 46),
      Rep True isdigit 1, GClose]"

text \<open>
  \<^verbatim>\<open>chapter_pattern.match(subsection)\<close> for \<^verbatim>\<open>(\d+)\.(\d+)\<close>: the two groups, when the
  text begins with digits, a dot and a digit.
\<close>

definition chapter_match :: "pstr \<Rightarrow> (pstr \<times> pstr) option" where
  "chapter_match s =
     (let a = takeWhile isdigit s; r = dropWhile isdigit s; b = takeWhile isdigit (drop 1 r)
      in if a \<noteq> [] \<and> take 1 r = [46] \<and> b \<noteq> [] then Some (a, b) else None)"

text \<open>
  An issue of the numbering group. The source records each as a formatted message; the
  model keeps the numbers that the message shows:
  \<^item> \<open>Non_sequential numbers expected\<close>: \<^verbatim>\<open>Numeracion no secuencial ...: numbers != expected\<close>;
  \<^item> \<open>Subsection_gap pc ps c s\<close>: \<^verbatim>\<open>Subseccion no secuencial: pc.ps -> c.s\<close>;
  \<^item> \<open>First_not_one c s\<close>: \<^verbatim>\<open>Primera subseccion no es 1: c.s\<close>;
  \<^item> \<open>Regression pc ps c s\<close>: \<^verbatim>\<open>Retroceso en la numeracion de secciones: pc.ps -> c.s\<close>.
\<close>

datatype issue =
    Non_sequential "nat list" "nat list"
  | Subsection_gap nat nat nat nat
  | First_not_one nat nat
  | Regression nat nat nat nat

text \<open>
  The comparison of one label with the pair \<^verbatim>\<open>(previous_chapter, previous_section)\<close>,
  \<open>None\<close> before the first label. The result is the issues appended and the pair for the
  next round; the source sets \<^verbatim>\<open>numbering.valid\<close> to false with each issue.
\<close>

definition compare_labels ::
  "(nat \<times> nat) option \<Rightarrow> nat \<Rightarrow> nat \<Rightarrow> issue list \<times> (nat \<times> nat) option" where
  "compare_labels prev current_chapter current_section =
     (case prev of
        None \<Rightarrow> ([], Some (current_chapter, current_section))
      | Some (previous_chapter, previous_section) \<Rightarrow>
          if current_chapter = previous_chapter
          then (if current_section \<noteq> previous_section + 1
                then [Subsection_gap previous_chapter previous_section
                        current_chapter current_section]
                else [],
                Some (previous_chapter, current_section))
          else if current_chapter > previous_chapter
          then (if current_section \<noteq> 1
                then [First_not_one current_chapter current_section]
                else [],
                Some (current_chapter, current_section))
          else ([Regression previous_chapter previous_section
                   current_chapter current_section],
                prev))"

text \<open>
  One round of the loop over the subsection labels; \<open>None\<close> when one of the two calls of
  \<^verbatim>\<open>int()\<close> raises, which nothing in \<open>validate_proposal\<close> catches.
\<close>

definition hierarchy_step ::
  "(nat \<times> nat) option \<Rightarrow> pstr \<Rightarrow> (issue list \<times> (nat \<times> nat) option) option" where
  "hierarchy_step prev subsection =
     (case chapter_match subsection of
        None \<Rightarrow> Some ([], prev)
      | Some (group1, group2) \<Rightarrow>
          (case py_int group1 of
             None \<Rightarrow> None
           | Some current_chapter \<Rightarrow>
               (case py_int group2 of
                  None \<Rightarrow> None
                | Some current_section \<Rightarrow>
                    Some (compare_labels prev current_chapter current_section))))"

fun check_hierarchy :: "(nat \<times> nat) option \<Rightarrow> pstr list \<Rightarrow> issue list option" where
  "check_hierarchy prev [] = Some []"
| "check_hierarchy prev (subsection # rest) =
     (case hierarchy_step prev subsection of
        None \<Rightarrow> None
      | Some outcome \<Rightarrow>
          (case check_hierarchy (snd outcome) rest of
             None \<Rightarrow> None
           | Some issues \<Rightarrow> Some (fst outcome @ issues)))"

record numbering_report =
  num_valid :: bool
  num_issues :: "issue list"

text \<open>
  \<^verbatim>\<open>[int(m) for m in matches]\<close> for the matches of the chapter pattern: \<open>None\<close> when a
  conversion raises. The sequential rule catches that \<^verbatim>\<open>ValueError\<close> and records nothing.
\<close>

definition chapter_numbers :: "pstr \<Rightarrow> nat list option" where
  "chapter_numbers proposal_text =
     those (map py_int (re_findall rx_chapter True None proposal_text))"

definition subsection_labels :: "pstr \<Rightarrow> pstr list" where
  "subsection_labels proposal_text = re_findall rx_subsection True None proposal_text"

definition sequential_issues :: "pstr \<Rightarrow> issue list" where
  "sequential_issues proposal_text =
     (case chapter_numbers proposal_text of
        None \<Rightarrow> []
      | Some numbers \<Rightarrow>
          (let expected = [1..<Suc (length numbers)]
           in if numbers \<noteq> expected then [Non_sequential numbers expected] else []))"

definition validate_numbering :: "pstr \<Rightarrow> numbering_report option" where
  \<comment> \<open>the numbering group of \<open>validate_proposal\<close>; \<open>None\<close> when it raises \<^verbatim>\<open>ValueError\<close>\<close>
  "validate_numbering proposal_text =
     (let top_issues = sequential_issues proposal_text
      in case check_hierarchy None (subsection_labels proposal_text) of
           None \<Rightarrow> None
         | Some hierarchy_issues \<Rightarrow>
             Some \<lparr>num_valid = (top_issues = [] \<and> hierarchy_issues = []),
                   num_issues = top_issues @ hierarchy_issues\<rparr>)"

text \<open>\<^verbatim>\<open>s.replace(old, new)\<close>: every occurrence, from the left, without overlap.\<close>

fun str_replace :: "pstr \<Rightarrow> pstr \<Rightarrow> pstr \<Rightarrow> pstr" where
  "str_replace old new [] = (if old = [] then new else [])"
| "str_replace old new (c # s) =
     (if old = [] then new @ c # str_replace old new s
      else if take (length old) (c # s) = old
      then new @ str_replace old new (drop (length old) (c # s))
      else c # str_replace old new s)"

definition rx_section_number :: "atom list" where
  \<comment> \<open>\<^verbatim>\<open>##\s+\d+\.\s+\<close>\<close>
  "rx_section_number =
     [Lit (of_str ''##''), Rep True isspace 1, Rep True isdigit 1, Ch (is_char 46),
      Rep True isspace 1]"

fun renumber :: "nat \<Rightarrow> pstr list \<Rightarrow> pstr \<Rightarrow> pstr" where
  \<comment> \<open>the loop \<^verbatim>\<open>for i, match in enumerate(section_matches)\<close>\<close>
  "renumber i [] corrected_text = corrected_text"
| "renumber i (m # ms) corrected_text =
     renumber (Suc i) ms
       (str_replace m (of_str ''## '' @ show_nat (Suc i) @ of_str ''. '') corrected_text)"

definition fix_issues :: "pstr \<Rightarrow> numbering_report \<Rightarrow> pstr" where
  "fix_issues proposal_text validation_results =
     (let c1 = re_sub rx_non_latin del None proposal_text;
          c2 = re_sub rx_think del None c1
      in if \<not> num_valid validation_results
         then renumber 0 (re_findall rx_section_number False None c2) c2
         else c2)"

section \<open>The chunker (tools/crag\_tools.py)\<close>

definition is_upper_az :: "nat \<Rightarrow> bool" where
  "is_upper_az c \<longleftrightarrow> 65 \<le> c \<and> c \<le> 90"

definition upper_or_space :: "nat \<Rightarrow> bool" where
  "upper_or_space c \<longleftrightarrow> is_upper_az c \<or> isspace c"

definition rx_markdown_header :: "atom list" where
  \<comment> \<open>\<^verbatim>\<open>\n#+\s+(.+?)\n\<close>\<close>
  "rx_markdown_header =
     [Ch (is_char 10), Rep True (is_char 35) 1, Rep True isspace 1, GOpen, Rep False not_nl 1,
      GClose, Ch (is_char 10)]"

definition rx_numbered_section :: "atom list" where
  \<comment> \<open>\<^verbatim>\<open>\n(\d+\.\s+.+?)\n\<close>\<close>
  "rx_numbered_section =
     [Ch (is_char 10), GOpen, Rep True isdigit 1, Ch (is_char 46), Rep True isspace 1,
      Rep False not_nl 1, GClose, Ch (is_char 10)]"

definition rx_caps_title :: "atom list" where
  \<comment> \<open>\<^verbatim>\<open>\n([A-Z][A-Z\s]+)\n\<close>\<close>
  "rx_caps_title =
     [Ch (is_char 10), GOpen, Ch is_upper_az, Rep True upper_or_space 1, GClose, Ch (is_char 10)]"

definition rx_colon_title :: "atom list" where
  \<comment> \<open>\<^verbatim>\<open>\n(.*?:)\n\<close>\<close>
  "rx_colon_title =
     [Ch (is_char 10), GOpen, Rep False not_nl 0, Ch (is_char 58), GClose, Ch (is_char 10)]"

definition section_patterns :: "atom list list" where
  "section_patterns = [rx_markdown_header, rx_numbered_section, rx_caps_title, rx_colon_title]"

text \<open>
  The result of \<^verbatim>\<open>re.split\<close> is the text before the first title, then a title and the
  text behind it, in turn. The loop \<^verbatim>\<open>for i in range(1, len(sections), 2)\<close> reads the
  pairs (title, content); an odd element at the end would have the empty content.
\<close>

fun title_pairs :: "pstr list \<Rightarrow> (pstr \<times> pstr) list" where
  "title_pairs [] = []"
| "title_pairs [t] = [(t, [])]"
| "title_pairs (t # c # rest) = (t, c) # title_pairs rest"

text \<open>
  The coalescing loop over the heading sections. The state is the list of chunks and the
  current chunk.
\<close>

fun coalesce_sections :: "int \<Rightarrow> pstr list \<Rightarrow> pstr \<Rightarrow> (pstr \<times> pstr) list
    \<Rightarrow> pstr list \<times> pstr" where
  "coalesce_sections chunk_size chunks current_chunk [] = (chunks, current_chunk)"
| "coalesce_sections chunk_size chunks current_chunk ((raw_title, content) # rest) =
     (let title = strip raw_title;
          flush = (int (length current_chunk) + int (length title) + int (length content)
                     > chunk_size \<and> current_chunk \<noteq> []);
          chunks1 = (if flush then chunks @ [strip current_chunk] else chunks);
          current1 = (if flush then [] else current_chunk)
      in coalesce_sections chunk_size chunks1 (current1 @ [10] @ title @ [10] @ content) rest)"

definition split_by_pattern :: "int \<Rightarrow> atom list \<Rightarrow> pstr \<Rightarrow> pstr list" where
  \<comment> \<open>one round of the loop over the patterns, for a pattern that matches\<close>
  "split_by_pattern chunk_size pattern remaining_text =
     (let secs = re_split pattern None [] (10 # remaining_text);
          (chunks, current_chunk) = coalesce_sections chunk_size [] [] (title_pairs (tl secs))
      in if current_chunk \<noteq> [] then chunks @ [strip current_chunk] else chunks)"

fun split_by_sections :: "int \<Rightarrow> atom list list \<Rightarrow> pstr \<Rightarrow> pstr list" where
  \<comment> \<open>the loop over the patterns: the first pattern that yields chunks ends it\<close>
  "split_by_sections chunk_size [] remaining_text = []"
| "split_by_sections chunk_size (pattern # patterns) remaining_text =
     (if re_search pattern None (10 # remaining_text)
      then (let chunks = split_by_pattern chunk_size pattern remaining_text
            in if chunks \<noteq> [] then chunks
               else split_by_sections chunk_size patterns remaining_text)
      else split_by_sections chunk_size patterns remaining_text)"

text \<open>\<^verbatim>\<open>s.split(sep)\<close> for a separator that is not empty.\<close>

fun str_split :: "pstr \<Rightarrow> pstr \<Rightarrow> pstr \<Rightarrow> pstr list" where
  "str_split sep acc [] = [rev acc]"
| "str_split sep acc (c # s) =
     (if sep \<noteq> [] \<and> take (length sep) (c # s) = sep
      then rev acc # str_split sep [] (drop (length sep) (c # s))
      else str_split sep (c # acc) s)"

text \<open>\<^verbatim>\<open>s[-k:]\<close> for a positive \<open>k\<close>: the last \<open>k\<close> characters.\<close>

definition last_chars :: "int \<Rightarrow> pstr \<Rightarrow> pstr" where
  "last_chars k s = drop (length s - nat k) s"

fun coalesce_paragraphs :: "int \<Rightarrow> int \<Rightarrow> pstr list \<Rightarrow> pstr \<Rightarrow> pstr list
    \<Rightarrow> pstr list \<times> pstr" where
  "coalesce_paragraphs chunk_size chunk_overlap chunks current_chunk [] =
     (chunks, current_chunk)"
| "coalesce_paragraphs chunk_size chunk_overlap chunks current_chunk (raw_paragraph # rest) =
     (let paragraph = strip raw_paragraph
      in if paragraph = []
         then coalesce_paragraphs chunk_size chunk_overlap chunks current_chunk rest
         else
           let flush = (int (length current_chunk) + int (length paragraph) > chunk_size
                          \<and> current_chunk \<noteq> []);
               chunks1 = (if flush then chunks @ [strip current_chunk] else chunks);
               current1 = (if flush
                           then (if chunk_overlap > 0 then last_chars chunk_overlap current_chunk
                                 else [])
                           else current_chunk)
           in coalesce_paragraphs chunk_size chunk_overlap chunks1
                (current1 @ [10] @ paragraph) rest)"

definition split_by_paragraphs :: "int \<Rightarrow> int \<Rightarrow> pstr \<Rightarrow> pstr list" where
  "split_by_paragraphs chunk_size chunk_overlap txt =
     (let (chunks, current_chunk) =
            coalesce_paragraphs chunk_size chunk_overlap [] [] (str_split [10, 10] [] txt)
      in if current_chunk \<noteq> [] then chunks @ [strip current_chunk] else chunks)"

text \<open>
  \<^verbatim>\<open>s[a:b]\<close> with Python's treatment of negative and oversized bounds, and the start
  indices of \<^verbatim>\<open>range(0, n, step)\<close> for a positive step.
\<close>

definition py_slice :: "pstr \<Rightarrow> int \<Rightarrow> int \<Rightarrow> pstr" where
  "py_slice s a b =
     (let n = int (length s);
          lo = (if a < 0 then max 0 (n + a) else min a n);
          hi = (if b < 0 then max 0 (n + b) else min b n)
      in drop (nat lo) (take (nat hi) s))"

definition range_starts :: "nat \<Rightarrow> nat \<Rightarrow> nat list" where
  "range_starts n step = map (\<lambda>k. k * step) [0..<(n + step - 1) div step]"

datatype chunk_error = ValueError

definition split_by_size :: "int \<Rightarrow> int \<Rightarrow> pstr \<Rightarrow> chunk_error + pstr list" where
  \<comment> \<open>\<^verbatim>\<open>range\<close> raises for the step 0 and is empty for a negative step\<close>
  "split_by_size chunk_size chunk_overlap txt =
     (let step = chunk_size - chunk_overlap
      in if step = 0 then Inl ValueError
         else if step < 0 then Inr []
         else Inr (map (\<lambda>i. strip (py_slice txt (int i) (int i + chunk_size)))
                     (range_starts (length txt) (nat step))))"

definition chunk_document :: "pstr \<Rightarrow> int \<Rightarrow> int \<Rightarrow> chunk_error + pstr list" where
  "chunk_document txt chunk_size chunk_overlap =
     (let chunks = split_by_sections chunk_size section_patterns txt;
          chunks = (if chunks = [] then split_by_paragraphs chunk_size chunk_overlap txt
                    else chunks)
      in case (if chunks = [] then split_by_size chunk_size chunk_overlap txt else Inr chunks) of
           Inl e \<Rightarrow> Inl e
         | Inr chunks \<Rightarrow> Inr (filter (\<lambda>c. strip c \<noteq> []) chunks))"

section \<open>The outline of the sections (tools/analysis\_tools.py)\<close>

text \<open>
  A value of \<^verbatim>\<open>json.loads\<close>. A float is modelled by a rational number; the
  not-a-number and the infinities that \<^verbatim>\<open>json.loads\<close> also accepts are outside the model.
  \<^verbatim>\<open>json.loads\<close> itself is a parameter of the functions that call it: a function from
  a text to a value, \<open>None\<close> where it raises \<^verbatim>\<open>JSONDecodeError\<close>.
\<close>

datatype json =
    JNull
  | JBool bool
  | JInt int
  | JFloat rat
  | JStr pstr
  | JArr "json list"
  | JObj "(pstr \<times> json) list"

type_synonym json_loads = "pstr \<Rightarrow> json option"

text \<open>\<^verbatim>\<open>sub in s\<close> for two texts.\<close>

fun contains :: "pstr \<Rightarrow> pstr \<Rightarrow> bool" where
  "contains sub [] \<longleftrightarrow> sub = []"
| "contains sub (c # s) \<longleftrightarrow> take (length sub) (c # s) = sub \<or> contains sub s"

definition rx_before_brace :: "atom list" where
  \<comment> \<open>\<^verbatim>\<open>^[^{]*\<close>\<close>
  "rx_before_brace = [Bol False, Rep True (\<lambda>c. c \<noteq> 123) 0]"

definition rx_after_brace :: "atom list" where
  \<comment> \<open>\<^verbatim>\<open>[^}]*$\<close>\<close>
  "rx_after_brace = [Rep True (\<lambda>c. c \<noteq> 125) 0, Eol False]"

definition rx_comma_brace :: "atom list" where
  \<comment> \<open>\<^verbatim>\<open>,\s*}\<close>\<close>
  "rx_comma_brace = [Ch (is_char 44), Rep True isspace 0, Ch (is_char 125)]"

definition rx_comma_bracket :: "atom list" where
  \<comment> \<open>\<^verbatim>\<open>,\s*]\<close>\<close>
  "rx_comma_bracket = [Ch (is_char 44), Rep True isspace 0, Ch (is_char 93)]"

definition fence :: pstr where
  \<comment> \<open>three backquotes\<close>
  "fence = [96, 96, 96]"

definition fence_json :: pstr where
  "fence_json = fence @ of_str ''json''"

definition strip_fences :: "pstr \<Rightarrow> pstr" where
  \<comment> \<open>\<^verbatim>\<open>response.split(f)[1].split(fence)[0].strip()\<close> for the first fence \<open>f\<close> found\<close>
  "strip_fences response =
     (if contains fence_json response
      then strip (hd (str_split fence [] (str_split fence_json [] response ! 1)))
      else if contains fence response
      then strip (hd (str_split fence [] (str_split fence [] response ! 1)))
      else response)"

definition required_sections :: "pstr list" where
  "required_sections =
     [of_str ''INTRODUCCION'', of_str ''OBJETIVOS'', of_str ''ALCANCE'',
      of_str ''METODOLOGIA'', of_str ''PLAN_DE_TRABAJO'', of_str ''ENTREGABLES'',
      of_str ''RECURSOS'', of_str ''RIESGOS'', of_str ''CALIDAD'', of_str ''NORMATIVAS'',
      of_str ''EXPERIENCIA'', of_str ''ANEXOS'']"

definition default_descriptions :: "(pstr \<times> json) list" where
  "default_descriptions =
     [(of_str ''INTRODUCCION'',
        JStr (of_str ''Contexto del proyecto y descripci'' @ [243] @ of_str ''n del problema a resolver'')),
      (of_str ''OBJETIVOS'',
        JStr (of_str ''Objetivo general y objetivos espec'' @ [237] @ of_str ''ficos del proyecto'')),
      (of_str ''ALCANCE'',
        JStr (of_str ''Alcance detallado del trabajo y l'' @ [237] @ of_str ''mites del proyecto'')),
      (of_str ''METODOLOGIA'',
        JStr (of_str ''Metodolog'' @ [237] @ of_str ''a propuesta para el desarrollo del proyecto'')),
      (of_str ''PLAN_DE_TRABAJO'',
        JStr (of_str ''Plan de trabajo y cronograma de actividades'')),
      (of_str ''ENTREGABLES'',
        JStr (of_str ''Listado detallado de entregables del proyecto'')),
      (of_str ''RECURSOS'',
        JStr (of_str ''Recursos humanos y t'' @ [233] @ of_str ''cnicos asignados al proyecto'')),
      (of_str ''RIESGOS'',
        JStr (of_str ''Gesti'' @ [243] @ of_str ''n de riesgos y plan de mitigaci'' @ [243] @ of_str ''n'')),
      (of_str ''CALIDAD'',
        JStr (of_str ''Plan de aseguramiento de calidad'')),
      (of_str ''NORMATIVAS'',
        JStr (of_str ''Normativas y est'' @ [225] @ of_str ''ndares aplicables'')),
      (of_str ''EXPERIENCIA'',
        JStr (of_str ''Experiencia relevante en proyectos similares'')),
      (of_str ''ANEXOS'',
        JStr (of_str ''Anexos t'' @ [233] @ of_str ''cnicos y documentaci'' @ [243] @ of_str ''n complementaria''))]"

definition default_index :: "(pstr \<times> json) list" where
  "default_index =
     [(of_str ''INTRODUCCION_Y_CONTEXTO'',
        JStr (of_str ''Contexto del proyecto y descripci'' @ [243] @ of_str ''n del problema a resolver'')),
      (of_str ''OBJETIVOS_GENERALES'',
        JStr (of_str ''Objetivo general del proyecto'')),
      (of_str ''OBJETIVOS_ESPECIFICOS'',
        JStr (of_str ''Objetivos espec'' @ [237] @ of_str ''ficos detallados del proyecto'')),
      (of_str ''ALCANCE_DEL_TRABAJO'',
        JStr (of_str ''Alcance detallado del trabajo, incluyendo lo que est'' @ [225] @ of_str '' dentro y fuera del alcance'')),
      (of_str ''METODOLOGIA_PROPUESTA'',
        JStr (of_str ''Metodolog'' @ [237] @ of_str ''a propuesta para el desarrollo del proyecto'')),
      (of_str ''PLAN_DE_TRABAJO_Y_CRONOGRAMA'',
        JStr (of_str ''Plan detallado con fases, actividades y tiempos'')),
      (of_str ''ENTREGABLES'',
        JStr (of_str ''Listado y descripci'' @ [243] @ of_str ''n detallada de los entregables del proyecto'')),
      (of_str ''RECURSOS_HUMANOS_Y_TECNICOS'',
        JStr (of_str ''Equipo de trabajo, roles y recursos t'' @ [233] @ of_str ''cnicos asignados'')),
      (of_str ''GESTION_DE_RIESGOS'',
        JStr (of_str ''Identificaci'' @ [243] @ of_str ''n de riesgos y estrategias de mitigaci'' @ [243] @ of_str ''n'')),
      (of_str ''PLAN_DE_CALIDAD'',
        JStr (of_str ''Mecanismos de aseguramiento de calidad y est'' @ [225] @ of_str ''ndares aplicables'')),
      (of_str ''NORMATIVAS_Y_ESTANDARES_APLICABLES'',
        JStr (of_str ''Cumplimiento de normativas y est'' @ [225] @ of_str ''ndares relevantes'')),
      (of_str ''EXPERIENCIA_RELEVANTE'',
        JStr (of_str ''Experiencia en proyectos similares y capacidades demostradas'')),
      (of_str ''ANEXOS_TECNICOS'',
        JStr (of_str ''Documentaci'' @ [243] @ of_str ''n t'' @ [233] @ of_str ''cnica complementaria''))]"

definition key_form :: "pstr \<Rightarrow> pstr" where
  \<comment> \<open>\<^verbatim>\<open>key.upper().replace(" ", "_")\<close>\<close>
  "key_form key = map (\<lambda>c. if c = 32 then 95 else c) (py_upper key)"

definition covered :: "pstr \<Rightarrow> (pstr \<times> json) list \<Rightarrow> bool" where
  \<comment> \<open>the inner loop that sets \<^verbatim>\<open>found\<close>\<close>
  "covered required json_response \<longleftrightarrow>
     list_ex (\<lambda>(key, v). contains required (key_form key)) json_response"

fun add_missing :: "pstr list \<Rightarrow> (pstr \<times> json) list \<Rightarrow> (pstr \<times> json) list" where
  \<comment> \<open>the loop over \<^verbatim>\<open>missing_sections\<close>\<close>
  "add_missing [] json_response = json_response"
| "add_missing (sec # missing) json_response =
     add_missing missing
       (dict_set json_response (sec @ of_str ''_SECCION'')
          (case dict_get default_descriptions sec of None \<Rightarrow> JNull | Some d \<Rightarrow> d))"

text \<open>
  The text that \<open>generate_index\<close> returns is either \<^verbatim>\<open>json.dumps\<close> of a value
  (\<open>Dumps\<close>) or the response of the language model after the repairs (\<open>Raw\<close>).
  \<open>llm\<close> is the call of the language model on the prompt built from \<open>info\<close>: the
  response (\<open>Inr\<close>) or the exception raised (\<open>Inl\<close>). A parsed response that is not an
  object has no \<^verbatim>\<open>keys()\<close>; the exception ends in the outer handler, which returns the
  default outline.
\<close>

datatype index_text = Raw pstr | Dumps json

definition generate_index :: "json_loads \<Rightarrow> (pstr \<Rightarrow> pstr + pstr) \<Rightarrow> pstr \<Rightarrow> index_text" where
  "generate_index loads llm info =
     (case llm info of
        Inl e \<Rightarrow> Dumps (JObj default_index)
      | Inr response0 \<Rightarrow>
          let r1 = re_sub rx_think del None response0;
              r2 = re_sub rx_before_brace del None r1;
              r3 = re_sub rx_after_brace del None r2;
              response = strip_fences r3
          in case loads response of
               Some (JObj json_response) \<Rightarrow>
                 let missing_sections =
                       filter (\<lambda>required. \<not> covered required json_response) required_sections
                 in Dumps (JObj (add_missing missing_sections json_response))
             | Some other \<Rightarrow> Dumps (JObj default_index)
             | None \<Rightarrow>
                 let r5 = re_sub rx_comma_brace (\<lambda>cap. [125]) None response;
                     r6 = re_sub rx_comma_bracket (\<lambda>cap. [93]) None r5
                 in (case loads r6 of
                       Some v \<Rightarrow> Raw r6
                     | None \<Rightarrow> Dumps (JObj default_index)))"

text \<open>The outline that a returned text parses to.\<close>

definition parsed_outline :: "json_loads \<Rightarrow> index_text \<Rightarrow> json option" where
  "parsed_outline loads r = (case r of Raw t \<Rightarrow> loads t | Dumps v \<Rightarrow> Some v)"

section \<open>The section retriever (tools/crag\_tools.py)\<close>

text \<open>
  \<^verbatim>\<open>str.lower\<close> and \<^verbatim>\<open>str.isdigit\<close> follow the Unicode tables of the interpreter
  (case mappings of every script, with a rule for the final sigma; the property Digit). The
  retriever takes them as parameters: \<open>lower_of\<close> maps a text to its lower-case form,
  \<open>isdigit_of\<close> says whether \<^verbatim>\<open>c.isdigit()\<close> holds of a character.
\<close>

record str_methods =
  lower_of :: "pstr \<Rightarrow> pstr"
  isdigit_of :: "nat \<Rightarrow> bool"

text \<open>
  The two methods on texts of code points below 256 (ASCII and Latin-1), where they are a
  map over the characters and the decimal digits with the superscripts 1, 2 and 3.
\<close>

definition py_lower :: "pstr \<Rightarrow> pstr" where
  "py_lower s = map lower_char s"

definition str_isdigit :: "nat \<Rightarrow> bool" where
  "str_isdigit c \<longleftrightarrow> isdigit c \<or> c = 178 \<or> c = 179 \<or> c = 185"

definition latin1 :: str_methods where
  "latin1 = \<lparr>lower_of = py_lower, isdigit_of = str_isdigit\<rparr>"

definition section_mappings :: "(pstr \<times> pstr list) list" where
  "section_mappings =
     [(of_str ''introduccion'',
        [of_str ''introducci'' @ [243] @ of_str ''n'', of_str ''introduccion'',
         of_str ''1.'', of_str ''i.'', of_str ''1 introducci'' @ [243] @ of_str ''n'',
         of_str ''1. introducci'' @ [243] @ of_str ''n'']),
      (of_str ''objetivos'',
        [of_str ''objetivos'', of_str ''2.'', of_str ''ii.'', of_str ''2 objetivos'',
         of_str ''2. objetivos'', of_str ''objetivo general'',
         of_str ''objetivos espec'' @ [237] @ of_str ''ficos'']),
      (of_str ''alcance'',
        [of_str ''alcance'', of_str ''3.'', of_str ''iii.'', of_str ''3 alcance'',
         of_str ''3. alcance'', of_str ''alcance del trabajo'',
         of_str ''alcance del proyecto'']),
      (of_str ''metodologia'',
        [of_str ''metodolog'' @ [237] @ of_str ''a'', of_str ''metodologia'', of_str ''4.'',
         of_str ''iv.'', of_str ''4 metodolog'' @ [237] @ of_str ''a'',
         of_str ''enfoque metodol'' @ [243] @ of_str ''gico'']),
      (of_str ''plan'',
        [of_str ''plan'', of_str ''cronograma'', of_str ''5.'', of_str ''v.'',
         of_str ''5 plan'', of_str ''planificaci'' @ [243] @ of_str ''n'',
         of_str ''plan de trabajo'']),
      (of_str ''entregables'',
        [of_str ''entregables'', of_str ''6.'', of_str ''vi.'', of_str ''6 entregables'',
         of_str ''productos a entregar'', of_str ''deliverables'']),
      (of_str ''recursos'',
        [of_str ''recursos'', of_str ''7.'', of_str ''vii.'', of_str ''7 recursos'',
         of_str ''equipo de trabajo'', of_str ''personal asignado'']),
      (of_str ''riesgos'',
        [of_str ''riesgos'', of_str ''8.'', of_str ''viii.'', of_str ''8 riesgos'',
         of_str ''gesti'' @ [243] @ of_str ''n de riesgos'',
         of_str ''an'' @ [225] @ of_str ''lisis de riesgos'']),
      (of_str ''calidad'',
        [of_str ''calidad'', of_str ''9.'', of_str ''ix.'', of_str ''9 calidad'',
         of_str ''control de calidad'', of_str ''aseguramiento de calidad'']),
      (of_str ''normativas'',
        [of_str ''normativas'', of_str ''normas'', of_str ''10.'', of_str ''x.'',
         of_str ''10 normativas'', of_str ''est'' @ [225] @ of_str ''ndares'',
         of_str ''regulaciones'']),
      (of_str ''experiencia'',
        [of_str ''experiencia'', of_str ''11.'', of_str ''xi.'', of_str ''11 experiencia'',
         of_str ''proyectos similares'', of_str ''track record'']),
      (of_str ''anexos'',
        [of_str ''anexos'', of_str ''12.'', of_str ''xii.'', of_str ''12 anexos'',
         of_str ''ap'' @ [233] @ of_str ''ndices'',
         of_str ''documentaci'' @ [243] @ of_str ''n adicional''])]"

fun extend_variants :: "pstr \<Rightarrow> (pstr \<times> pstr list) list \<Rightarrow> pstr list \<Rightarrow> pstr list" where
  \<comment> \<open>the loop over the mapping\<close>
  "extend_variants section_name [] variants = variants"
| "extend_variants section_name ((key, alternatives) # rest) variants =
     extend_variants section_name rest
       (if contains key section_name \<or> list_ex (\<lambda>alt. contains alt section_name) alternatives
        then variants @ alternatives else variants)"

text \<open>
  The source returns \<^verbatim>\<open>list(set(variants))\<close>, in an order of its own; the caller only asks
  whether some variant occurs, so the model returns the variants without duplicates.
\<close>

definition get_section_variants :: "str_methods \<Rightarrow> pstr \<Rightarrow> pstr list" where
  "get_section_variants str section_name0 =
     (let section_name = lower_of str section_name0;
          variants = extend_variants section_name section_mappings [section_name];
          clean_name =
            strip (filter (\<lambda>c. \<not> isdigit_of str c \<and> c \<noteq> 46 \<and> c \<noteq> 45 \<and> c \<noteq> 58)
                     section_name)
      in remdups (if clean_name \<noteq> [] \<and> clean_name \<notin> set variants
                  then variants @ [clean_name] else variants))"

record document =
  page_content :: pstr
  doc_metadata :: "(pstr \<times> pstr) list"

record 's retrieval_result =
  project_name :: pstr
  project_code :: pstr
  section_content :: pstr
  similarity_score :: 's
  source :: pstr

text \<open>
  The vector store answers a query for \<open>n\<close> neighbours with a list of documents and
  scores (\<open>Inr\<close>) or raises (\<open>Inl\<close>); a store that is not initialised is \<open>None\<close>.
  \<open>stem\<close> is \<^verbatim>\<open>Path(p).stem\<close>.
\<close>

type_synonym 's vector_db = "pstr \<Rightarrow> int \<Rightarrow> pstr + (document \<times> 's) list"

definition combined_query :: "pstr \<Rightarrow> pstr \<Rightarrow> pstr" where
  "combined_query section_name query =
     of_str ''Secci'' @ [243] @ of_str ''n: '' @ section_name @ of_str ''. '' @ query"

definition mentions_section :: "str_methods \<Rightarrow> pstr list \<Rightarrow> document \<times> 's \<Rightarrow> bool" where
  \<comment> \<open>\<^verbatim>\<open>any(variant in content for variant in section_variants)\<close>\<close>
  "mentions_section str section_variants r \<longleftrightarrow>
     (let content = lower_of str (page_content (fst r))
      in list_ex (\<lambda>variant. contains variant content) section_variants)"

text \<open>\<^verbatim>\<open>xs[:k]\<close>.\<close>

definition py_take :: "'a list \<Rightarrow> int \<Rightarrow> 'a list" where
  "py_take xs k = (if 0 \<le> k then take (nat k) xs else take (length xs - nat (- k)) xs)"

definition format_result :: "(pstr \<Rightarrow> pstr) \<Rightarrow> document \<times> 's \<Rightarrow> 's retrieval_result" where
  "format_result stem r =
     (let doc = fst r;
          src = (case dict_get (doc_metadata doc) (of_str ''source'') of
                   None \<Rightarrow> [] | Some s \<Rightarrow> s)
      in \<lparr>project_name =
            (case dict_get (doc_metadata doc) (of_str ''project_name'') of
               None \<Rightarrow> of_str ''Desconocido'' | Some n \<Rightarrow> n),
          project_code = stem src,
          section_content = page_content doc,
          similarity_score = snd r,
          source = src\<rparr>)"

definition search_similar_content ::
  "str_methods \<Rightarrow> (pstr \<Rightarrow> pstr) \<Rightarrow> 's vector_db option \<Rightarrow> pstr \<Rightarrow> pstr \<Rightarrow> int
     \<Rightarrow> 's retrieval_result list" where
  "search_similar_content str stem vector_db query section_name k =
     (case vector_db of
        None \<Rightarrow> []
      | Some db \<Rightarrow>
          (case db (combined_query section_name query) (k * 3) of
             Inl e \<Rightarrow> []
           | Inr results \<Rightarrow>
               let section_variants = get_section_variants str section_name;
                   section_filtered_results =
                     filter (mentions_section str section_variants) results;
                   section_filtered_results =
                     (if section_filtered_results = [] \<and> results \<noteq> [] then results
                      else section_filtered_results);
                   final_results = py_take section_filtered_results k
               in map (format_result stem) final_results))"

text \<open>
  \<open>clean_retrieved_content\<close>: the cleaning pass of the retrieval, with the same first three
  substitutions as \<open>clean_section_content\<close>; the fourth turns the marker of a heading of
  level three or deeper into \<^verbatim>\<open>## \<close>.
\<close>

definition rx_deep_heading :: "atom list" where
  \<comment> \<open>\<^verbatim>\<open>^#{3,}\s+\<close> with MULTILINE\<close>
  "rx_deep_heading = [Bol True, Rep True (is_char 35) 3, Rep True isspace 1]"

definition h2_prefix :: "pstr option \<Rightarrow> pstr" where
  "h2_prefix cap = of_str ''## ''"

definition clean_retrieved_content :: "pstr \<Rightarrow> pstr" where
  "clean_retrieved_content content =
     (let c1 = re_sub rx_think del None content;
          c2 = re_sub rx_non_latin del None c1;
          c3 = re_sub rx_blank_lines two_newlines None c2;
          c4 = re_sub rx_deep_heading h2_prefix None c3
      in strip c4)"

section \<open>Project metadata (nodes/section\_node.py, nodes/combine\_node.py)\<close>

text \<open>
  The metadata is a dictionary of three keys. Its values are texts, or whatever value the
  parsed requirement holds under the key.
\<close>

definition k_titulo :: pstr where "k_titulo = of_str ''titulo_proyecto''"
definition k_cliente :: pstr where "k_cliente = of_str ''cliente''"
definition k_fecha :: pstr where "k_fecha = of_str ''fecha''"

definition metadata_keys :: "pstr list" where
  "metadata_keys = [k_titulo, k_cliente, k_fecha]"

definition default_titulo :: json where
  "default_titulo = JStr (of_str ''Proyecto No Especificado'')"

definition default_cliente :: json where
  "default_cliente = JStr (of_str ''Cliente No Especificado'')"

definition default_fecha :: json where
  "default_fecha = JStr (of_str ''No Especificada'')"

definition no_especificado :: json where
  "no_especificado = JStr (of_str ''No especificado'')"

definition date_fields :: "pstr list" where
  "date_fields = [of_str ''fecha'', of_str ''fecha_inicio'', of_str ''plazos'', of_str ''cronograma'']"

text \<open>
  What Python does with a parsed value: \<^verbatim>\<open>key in v\<close> and \<^verbatim>\<open>v[key]\<close> for a text
  \<open>key\<close> (\<open>None\<close> where they raise \<^verbatim>\<open>TypeError\<close> or \<^verbatim>\<open>KeyError\<close>), and the truth
  value of \<open>v\<close>.
\<close>

definition py_in :: "pstr \<Rightarrow> json \<Rightarrow> bool option" where
  "py_in key v =
     (case v of
        JObj d \<Rightarrow> Some (key \<in> set (map fst d))
      | JArr xs \<Rightarrow> Some (JStr key \<in> set xs)
      | JStr s \<Rightarrow> Some (contains key s)
      | _ \<Rightarrow> None)"

definition py_getitem :: "json \<Rightarrow> pstr \<Rightarrow> json option" where
  "py_getitem v key = (case v of JObj d \<Rightarrow> dict_get d key | _ \<Rightarrow> None)"

definition truthy :: "json \<Rightarrow> bool" where
  "truthy v =
     (case v of
        JNull \<Rightarrow> False
      | JBool b \<Rightarrow> b
      | JInt i \<Rightarrow> i \<noteq> 0
      | JFloat r \<Rightarrow> r \<noteq> 0
      | JStr s \<Rightarrow> s \<noteq> []
      | JArr xs \<Rightarrow> xs \<noteq> []
      | JObj d \<Rightarrow> d \<noteq> [])"

text \<open>
  The statements inside the \<^verbatim>\<open>try\<close> block change the metadata one after the other; an
  exception ends the block and the metadata stays as it is then. Each step returns the
  metadata after it, or \<open>None\<close> when it raises. The parser has the two outcomes of
  \<open>json_loads\<close>, a value or \<^verbatim>\<open>JSONDecodeError\<close>; any other exception it could raise is
  caught by the outer handler and leaves the defaults.
\<close>

definition set_if_present :: "pstr \<Rightarrow> json \<Rightarrow> (pstr \<times> json) list \<Rightarrow> (pstr \<times> json) list option" where
  \<comment> \<open>\<^verbatim>\<open>if key in tdr_dict: metadata[key] = tdr_dict[key]\<close>\<close>
  "set_if_present key tdr_dict metadata =
     (case py_in key tdr_dict of
        None \<Rightarrow> None
      | Some False \<Rightarrow> Some metadata
      | Some True \<Rightarrow>
          (case py_getitem tdr_dict key of
             None \<Rightarrow> None
           | Some v \<Rightarrow> Some (dict_set metadata key v)))"

definition set_if_specified :: "pstr \<Rightarrow> json \<Rightarrow> (pstr \<times> json) list \<Rightarrow> (pstr \<times> json) list option" where
  \<comment> \<open>\<^verbatim>\<open>if key in tdr_dict and tdr_dict[key] != "No especificado": ...\<close>\<close>
  "set_if_specified key tdr_dict metadata =
     (case py_in key tdr_dict of
        None \<Rightarrow> None
      | Some False \<Rightarrow> Some metadata
      | Some True \<Rightarrow>
          (case py_getitem tdr_dict key of
             None \<Rightarrow> None
           | Some v \<Rightarrow> Some (if v \<noteq> no_especificado then dict_set metadata key v
                                else metadata)))"

fun find_date :: "pstr list \<Rightarrow> json \<Rightarrow> (pstr \<times> json) list \<Rightarrow> (pstr \<times> json) list option" where
  \<comment> \<open>the loop over \<^verbatim>\<open>date_fields\<close>, left at the first usable field\<close>
  "find_date [] tdr_dict metadata = Some metadata"
| "find_date (field # others) tdr_dict metadata =
     (case py_in field tdr_dict of
        None \<Rightarrow> None
      | Some False \<Rightarrow> find_date others tdr_dict metadata
      | Some True \<Rightarrow>
          (case py_getitem tdr_dict field of
             None \<Rightarrow> None
           | Some v \<Rightarrow>
               if truthy v \<and> v \<noteq> no_especificado then Some (dict_set metadata k_fecha v)
               else find_date others tdr_dict metadata))"

text \<open>
  The three searches of the free-text branch are parameters: each gives group 1 of the first
  match of its pattern, if there is a match.
\<close>

record searches =
  title_search :: "pstr \<Rightarrow> pstr option"
  client_search :: "pstr \<Rightarrow> pstr option"
  date_search :: "pstr \<Rightarrow> pstr option"

definition set_from_search :: "pstr \<Rightarrow> pstr option \<Rightarrow> (pstr \<times> json) list \<Rightarrow> (pstr \<times> json) list" where
  \<comment> \<open>\<^verbatim>\<open>if m: metadata[key] = m.group(1).strip()\<close>\<close>
  "set_from_search key m metadata =
     (case m of None \<Rightarrow> metadata | Some g \<Rightarrow> dict_set metadata key (JStr (strip g)))"

definition extract_project_metadata :: "json_loads \<Rightarrow> searches \<Rightarrow> pstr \<Rightarrow> (pstr \<times> json) list" where
  \<comment> \<open>nodes/section\_node.py\<close>
  "extract_project_metadata loads rx requirement =
     (let metadata = [(k_titulo, default_titulo), (k_cliente, default_cliente),
                      (k_fecha, default_fecha)]
      in case loads requirement of
           Some tdr_dict \<Rightarrow>
             (case set_if_present k_titulo tdr_dict metadata of
                None \<Rightarrow> metadata
              | Some m1 \<Rightarrow>
                  (case set_if_present k_cliente tdr_dict m1 of
                     None \<Rightarrow> m1
                   | Some m2 \<Rightarrow>
                       (case find_date date_fields tdr_dict m2 of
                          None \<Rightarrow> m2
                        | Some m3 \<Rightarrow> m3)))
         | None \<Rightarrow>
             set_from_search k_fecha (date_search rx requirement)
               (set_from_search k_cliente (client_search rx requirement)
                  (set_from_search k_titulo (title_search rx requirement) metadata)))"

text \<open>
  The variant of nodes/combine\_node.py reads the state. Its default date is the current
  date, \<open>today\<close>; a state without requirement text gives the empty text to
  \<^verbatim>\<open>json.loads\<close>.
\<close>

definition combine_extract_project_metadata ::
  "pstr \<Rightarrow> json_loads \<Rightarrow> searches \<Rightarrow> agent_state \<Rightarrow> (pstr \<times> json) list" where
  "combine_extract_project_metadata today loads rx state =
     (let metadata = [(k_titulo, default_titulo), (k_cliente, default_cliente),
                      (k_fecha, JStr today)];
          info = (case tdr_info state of None \<Rightarrow> [] | Some t \<Rightarrow> t)
      in case loads info of
           Some tdr_dict \<Rightarrow>
             (case set_if_specified k_titulo tdr_dict metadata of
                None \<Rightarrow> metadata
              | Some m1 \<Rightarrow>
                  (case set_if_specified k_cliente tdr_dict m1 of
                     None \<Rightarrow> m1
                   | Some m2 \<Rightarrow>
                       (case find_date date_fields tdr_dict m2 of
                          None \<Rightarrow> m2
                        | Some m3 \<Rightarrow> m3)))
         | None \<Rightarrow>
             (case get_sections state of
                [] \<Rightarrow> metadata
              | intro_section # rest \<Rightarrow>
                  set_from_search k_cliente (client_search rx intro_section)
                    (set_from_search k_titulo (title_search rx intro_section) metadata)))"

section \<open>The hierarchy rule in the words of the specification\<close>

text \<open>
  Two consecutive subsection labels \<open>p\<close> and \<open>q\<close> (pairs chapter, subsection) respect the
  hierarchy when \<open>q\<close> continues the chapter of \<open>p\<close> with the next number, or opens a later
  chapter with number 1. A list of labels is hierarchical when every two consecutive
  labels do.
\<close>

definition label_ok :: "nat \<times> nat \<Rightarrow> nat \<times> nat \<Rightarrow> bool" where
  "label_ok p q =
     (if fst q = fst p then snd q = snd p + 1 else fst p < fst q \<and> snd q = 1)"

definition hierarchical :: "(nat \<times> nat) list \<Rightarrow> bool" where
  "hierarchical labels = successively label_ok labels"

definition label_numbers :: "pstr \<Rightarrow> (nat \<times> nat) option" where
  \<comment> \<open>the two numbers that a label shows\<close>
  "label_numbers l =
     map_option (\<lambda>groups. (int_of_digits (fst groups), int_of_digits (snd groups)))
       (chapter_match l)"

definition subsection_numbers :: "pstr \<Rightarrow> (nat \<times> nat) list" where
  \<comment> \<open>the labels of a document, as numbers\<close>
  "subsection_numbers t = List.map_filter label_numbers (subsection_labels t)"

text \<open>
  The issues of the hierarchy rule. The labels are compared in document order, each with
  a reference label: the label before it, except that a label of a lower chapter does not
  become the reference. A label of the same chapter must have the next number (otherwise a
  gap is recorded, with both labels); a label of a higher chapter must have the number 1
  (otherwise it is recorded, alone); a label of a lower chapter is recorded as a regression,
  with both labels. The first label is compared with nothing.
\<close>

fun violations :: "nat \<times> nat \<Rightarrow> (nat \<times> nat) list \<Rightarrow> issue list" where
  "violations p [] = []"
| "violations p (q # qs) =
     (if fst q = fst p
      then (if snd q = snd p + 1 then [] else [Subsection_gap (fst p) (snd p) (fst q) (snd q)])
             @ violations q qs
      else if fst p < fst q
      then (if snd q = 1 then [] else [First_not_one (fst q) (snd q)]) @ violations q qs
      else Regression (fst p) (snd p) (fst q) (snd q) # violations p qs)"

definition hierarchy_issues :: "(nat \<times> nat) list \<Rightarrow> issue list" where
  "hierarchy_issues labels = (case labels of [] \<Rightarrow> [] | p # qs \<Rightarrow> violations p qs)"

text \<open>
  A text occurs in another as a substring. The alternatives that the retriever adds for a
  section name (in lower case) are those of every entry of the mapping whose key, or one
  of whose alternatives, occurs in the name.
\<close>

definition occurs_in :: "pstr \<Rightarrow> pstr \<Rightarrow> bool" where
  "occurs_in v s \<longleftrightarrow> (\<exists>before after. s = before @ v @ after)"

definition matching_alternatives :: "pstr \<Rightarrow> pstr set" where
  "matching_alternatives n =
     {v. \<exists>key alternatives. (key, alternatives) \<in> set section_mappings
           \<and> (occurs_in key n \<or> (\<exists>alt\<in>set alternatives. occurs_in alt n))
           \<and> v \<in> set alternatives}"



text \<open>
  The number of newlines in the whitespace at the head of a text, and the texts in which no
  run of whitespace holds more than two newlines: the texts that the blank-line
  substitution leaves as they are.
\<close>

definition newlines_ahead :: "pstr \<Rightarrow> nat" where
  "newlines_ahead s = length (filter (\<lambda>c. c = 10) (takeWhile isspace s))"

fun sparse :: "pstr \<Rightarrow> bool" where
  "sparse [] = True"
| "sparse (c # s) = (newlines_ahead (c # s) \<le> 2 \<and> sparse s)"

section \<open>Concrete inputs\<close>

definition demo_backend :: backend where
  "demo_backend req = Inr (of_str ''Texto'')"

definition demo_state :: agent_state where
  "demo_state =
     \<lparr>index = Some [(of_str ''alcance'', of_str ''d'')],
      tdr_info = Some (of_str ''t''), current_section_index = None,
      generated_content = None, sections = None, messages = [], next_step = None\<rparr>"


definition failing_backend :: backend where
  "failing_backend req = Inl (of_str ''down'')"

definition failure_text :: pstr where
  "failure_text = of_str ''Error en '' @ seccion @ of_str '' alcance: Error al generar ''
     @ seccion @ of_str '' alcance: down''"

definition doc21 :: pstr where
  \<comment> \<open>two headings, numbered 2 and 1\<close>
  "doc21 = of_str ''## 2. A'' @ [10] @ of_str ''## 1. B'' @ [10]"

definition doc_first5 :: pstr where
  "doc_first5 = of_str ''### 1.5 Plan''"

definition doc_ch2 :: pstr where
  "doc_ch2 = of_str ''## 2. A''"

definition doc_gap :: pstr where
  \<comment> \<open>subsection 1.3 behind 1.1\<close>
  "doc_gap = of_str ''### 1.1 A'' @ [10] @ of_str ''### 1.3 B''"

definition doc_second :: pstr where
  \<comment> \<open>chapter 2 begins with 2.2\<close>
  "doc_second = of_str ''### 1.1 A'' @ [10] @ of_str ''### 2.2 B''"

definition blank_doc :: pstr where
  \<comment> \<open>two spaces, a newline, a tab\<close>
  "blank_doc = [32, 32, 10, 9]"



text \<open>
  A response of the language model with one section and a comma before the closing brace,
  the same text without the comma, the outline that this text denotes, and the answers of
  \<^verbatim>\<open>json.loads\<close> on the two texts.
\<close>

definition trailing_comma_response :: pstr where
  "trailing_comma_response =
     of_str ''{'' @ [34] @ of_str ''OBJETIVOS'' @ [34] @ of_str '': '' @ [34] @ of_str ''x'' @ [34]
       @ of_str '',}''"

definition repaired_response :: pstr where
  "repaired_response =
     of_str ''{'' @ [34] @ of_str ''OBJETIVOS'' @ [34] @ of_str '': '' @ [34] @ of_str ''x'' @ [34]
       @ of_str ''}''"

definition repaired_outline :: "(pstr \<times> json) list" where
  "repaired_outline = [(of_str ''OBJETIVOS'', JStr (of_str ''x''))]"

definition loads_example :: json_loads where
  "loads_example t = (if t = repaired_response then Some (JObj repaired_outline) else None)"

definition demo_document :: document where
  "demo_document =
     \<lparr>page_content = of_str ''3. Alcance del proyecto'',
      doc_metadata = [(of_str ''source'', of_str ''p/PKS-1.txt''),
                      (of_str ''project_name'', of_str ''PKS-1'')]\<rparr>"

definition other_document :: document where
  "other_document =
     \<lparr>page_content = of_str ''Cronograma de pagos'',
      doc_metadata = [(of_str ''source'', of_str ''p/PKS-2.txt'')]\<rparr>"

definition third_document :: document where
  "third_document =
     \<lparr>page_content = of_str ''El ALCANCE incluye'',
      doc_metadata = [(of_str ''source'', of_str ''p/PKS-3.txt'')]\<rparr>"

definition demo_db :: "int vector_db" where
  \<comment> \<open>three candidates; the second and the third mention the section\<close>
  "demo_db q n = Inr [(other_document, 0), (demo_document, 1), (third_document, 2)]"

definition fallback_db :: "int vector_db" where
  \<comment> \<open>one candidate, which does not mention the section\<close>
  "fallback_db q n = Inr [(other_document, 0)]"

text \<open>
  A parser that rejects every text, searches that find nothing, and a date of the day.
\<close>

definition not_json :: json_loads where
  "not_json t = None"

definition no_match :: searches where
  "no_match = \<lparr>title_search = (\<lambda>t. None), client_search = (\<lambda>t. None),
                date_search = (\<lambda>t. None)\<rparr>"

definition today_example :: pstr where
  "today_example = of_str ''04 de November, 2026''"

text \<open>
  A heading behind a space, with and without the space, for both cleaning passes; and a text
  without heading marker or tag that has three newlines in a row and a trailing space.
\<close>

definition indented_heading :: pstr where
  "indented_heading = of_str '' # a'' @ [10] @ of_str ''b''"

definition bare_heading :: pstr where
  "bare_heading = of_str ''# a'' @ [10] @ of_str ''b''"

definition indented_deep_heading :: pstr where
  "indented_deep_heading = of_str '' ### a''"

definition bare_deep_heading :: pstr where
  "bare_deep_heading = of_str ''### a''"

definition plain_doc :: pstr where
  "plain_doc = of_str ''a'' @ [10, 10, 10] @ of_str ''b ''"

text \<open>A tag whose opening marker is interrupted by an empty tag, and the tag that is left.\<close>

definition nested_tag :: pstr where
  "nested_tag = of_str ''<think<think></think>></think>''"

definition bare_tag :: pstr where
  "bare_tag = of_str ''<think></think>''"

section \<open>Facts about the substitutions\<close>

lemma isdigit_small: "c < 1632 \<Longrightarrow> isdigit c \<longleftrightarrow> 48 \<le> c \<and> c \<le> 57"
proof -
  assume c: "c < 1632"
  have split: "decimal_starts = 48 # tl decimal_starts"
    by (simp add: decimal_starts_def)
  have rest: "list_all (\<lambda>b. 1632 \<le> b) (tl decimal_starts)"
    by (simp add: decimal_starts_def)
  have "\<not> list_ex (\<lambda>b. b \<le> c \<and> c < b + 10) (tl decimal_starts)"
    using rest c by (fastforce simp: list_ex_iff list_all_iff)
  then show ?thesis
    unfolding isdigit_def by (subst split) auto
qed

lemma digit_value_ascii: "48 \<le> c \<Longrightarrow> c \<le> 57 \<Longrightarrow> digit_value c = c - 48"
  by (simp add: digit_value_def decimal_starts_def)

lemma not_digit_between:
  assumes "list_all (\<lambda>b. b + 10 \<le> lo \<or> hi \<le> b) decimal_starts" and "lo \<le> c" and "c < hi"
  shows "\<not> isdigit c"
  using assms unfolding isdigit_def by (fastforce simp: list_ex_iff list_all_iff)

lemma isspace_not_digit: "isspace c \<Longrightarrow> \<not> isdigit c"
proof -
  assume "isspace c"
  then consider "c < 48" | "58 \<le> c \<and> c < 1632" | "4250 \<le> c \<and> c < 6112"
    | "7258 \<le> c \<and> c < 42528"
    unfolding isspace_def by linarith
  then show ?thesis
  proof cases
    case 1
    then show ?thesis by (simp add: isdigit_small)
  next
    case 2
    then show ?thesis by (simp add: isdigit_small)
  next
    case 3
    have "list_all (\<lambda>b. b + 10 \<le> 4250 \<or> 6112 \<le> b) decimal_starts"
      by (simp add: decimal_starts_def)
    from not_digit_between [OF this, of c] 3 show ?thesis by simp
  next
    case 4
    have "list_all (\<lambda>b. b + 10 \<le> 7258 \<or> 42528 \<le> b) decimal_starts"
      by (simp add: decimal_starts_def)
    from not_digit_between [OF this, of c] 4 show ?thesis by simp
  qed
qed


lemmas rx_eval = isspace_def isdigit_small is_char_def prev_after_def not_nl_def any_char_def

lemma show_nat_small: "n < 10 \<Longrightarrow> show_nat n = [48 + n]"
  by (subst show_nat.simps) simp

lemma re_sub_no_match:
  assumes "\<And>prev' s'. set s' \<subseteq> set s \<Longrightarrow> rx_match rx prev' s' None None = None"
  shows "re_sub rx repl prev s = s"
  using assms
proof (induction s arbitrary: prev)
  case Nil
  then show ?case by (subst re_sub.simps) simp
next
  case (Cons c s)
  have "rx_match rx prev (c # s) None None = None"
    using Cons.prems by blast
  moreover have "re_sub rx repl (Some c) s = s"
    by (rule Cons.IH) (use Cons.prems in auto)
  ultimately show ?case by (subst re_sub.simps) simp
qed

lemma take_eq_Cons_mem: "take n s = a # l \<Longrightarrow> a \<in> set s"
  by (metis in_set_takeD list.set_intros(1))

lemma rx_match_Lit_absent:
  "a \<notin> set s \<Longrightarrow> rx_match (Lit (a # l) # rs) prev s gs cap = None"
  using take_eq_Cons_mem [of "length (a # l)" s a l] by auto

lemma rx_match_Ch_absent:
  "a \<notin> set s \<Longrightarrow> rx_match (Ch (is_char a) # rs) prev s gs cap = None"
  by (cases s) (auto simp: is_char_def)

lemma first_some_None: "(\<And>x. x \<in> set xs \<Longrightarrow> f x = None) \<Longrightarrow> first_some f xs = None"
  by (induction xs) auto

lemma takeWhile_absent: "a \<notin> set s \<Longrightarrow> takeWhile (is_char a) s = []"
  by (cases s) (auto simp: is_char_def)

lemma rx_match_Rep1_absent:
  "a \<notin> set s \<Longrightarrow> rx_match (Rep g (is_char a) (Suc n) # rs) prev s gs cap = None"
  by (simp add: takeWhile_absent)

lemma re_sub_think_id:
  assumes "60 \<notin> set s"
  shows "re_sub rx_think repl prev s = s"
proof (rule re_sub_no_match)
  fix prev' s'
  assume "set s' \<subseteq> set s"
  then have "60 \<notin> set s'" using assms by blast
  then show "rx_match rx_think prev' s' None None = None"
    unfolding rx_think_def of_str_def by (simp del: rx_match.simps add: rx_match_Lit_absent)
qed

lemma re_sub_blank_lines_no_nl:
  assumes "10 \<notin> set s"
  shows "re_sub rx_blank_lines repl prev s = s"
proof (rule re_sub_no_match)
  fix prev' s'
  assume "set s' \<subseteq> set s"
  then have "10 \<notin> set s'" using assms by blast
  then show "rx_match rx_blank_lines prev' s' None None = None"
    unfolding rx_blank_lines_def by (simp del: rx_match.simps add: rx_match_Ch_absent)
qed

lemma rx_match_Bol: 
  "rx_match (Bol ml # rs) prev s gs cap = None \<longleftrightarrow>
     \<not> (prev = None \<or> (ml \<and> prev = Some 10)) \<or> rx_match rs prev s gs cap = None"
  by simp

lemma re_sub_heading_line_id:
  assumes "35 \<notin> set s"
  shows "re_sub rx_heading_line repl prev s = s"
proof (rule re_sub_no_match)
  fix prev' s'
  assume "set s' \<subseteq> set s"
  then have "35 \<notin> set s'" using assms by blast
  then have "rx_match [Rep True (is_char 35) (Suc 0), Rep True isspace 1, Rep True not_nl 0,
     Ch (is_char 10)] prev' s' None None = None"
    by (rule rx_match_Rep1_absent)
  then show "rx_match rx_heading_line prev' s' None None = None"
    unfolding rx_heading_line_def by (simp only: rx_match_Bol One_nat_def simp_thms)
qed

lemma re_sub_h2_line_id:
  assumes "35 \<notin> set s"
  shows "re_sub rx_h2_line repl prev s = s"
proof (rule re_sub_no_match)
  fix prev' s'
  assume "set s' \<subseteq> set s"
  then have "35 \<notin> set s'" using assms by blast
  then have "rx_match [Lit (of_str ''##''), Rep True isspace 1, Rep False not_nl 0,
     Ch (is_char 10)] prev' s' None None = None"
    unfolding of_str_def by (simp del: rx_match.simps add: rx_match_Lit_absent)
  then show "rx_match rx_h2_line prev' s' None None = None"
    unfolding rx_h2_line_def by (simp only: rx_match_Bol simp_thms)
qed

lemma re_sub_h3_title_id:
  assumes "35 \<notin> set s"
  shows "re_sub rx_h3_title repl prev s = s"
proof (rule re_sub_no_match)
  fix prev' s'
  assume "set s' \<subseteq> set s"
  then have "35 \<notin> set s'" using assms by blast
  then have "rx_match [Lit (of_str ''###''), Rep True isspace 1, GOpen, Rep False not_nl 0, GClose,
      Eol True] prev' s' None None = None"
    unfolding of_str_def by (simp del: rx_match.simps add: rx_match_Lit_absent)
  then show "rx_match rx_h3_title prev' s' None None = None"
    unfolding rx_h3_title_def by (simp only: rx_match_Bol simp_thms)
qed

lemma rx_match_non_latin:
  "rx_match rx_non_latin prev s None None =
     (if s \<noteq> [] \<and> non_latin (hd s)
      then Some (prev_after prev s (length (takeWhile non_latin s)), dropWhile non_latin s, None)
      else None)"
proof (cases "s \<noteq> [] \<and> non_latin (hd s)")
  case True
  then obtain c s' where s: "s = c # s'" and c: "non_latin c" by (cases s) auto
  have "[Suc 0..<Suc (Suc (length (takeWhile non_latin s')))] =
      [Suc 0..<Suc (length (takeWhile non_latin s'))] @ [Suc (length (takeWhile non_latin s'))]"
    by simp
  then show ?thesis using s c
    by (simp add: rx_non_latin_def dropWhile_eq_drop del: upt_Suc)
next
  case False
  then have "takeWhile non_latin s = []" by (cases s) auto
  then show ?thesis using False by (simp add: rx_non_latin_def)
qed

lemma re_sub_non_latin: "re_sub rx_non_latin del prev s = filter (\<lambda>c. \<not> non_latin c) s"
proof (induction "length s" arbitrary: s prev rule: less_induct)
  case less
  show ?case
  proof (cases s)
    case Nil
    then show ?thesis by (subst re_sub.simps) (simp add: rx_match_non_latin)
  next
    case (Cons c s')
    show ?thesis
    proof (cases "non_latin c")
      case True
      have len: "length (dropWhile non_latin s) < length s"
        using Cons True by (simp add: le_imp_less_Suc length_dropWhile_le)
      have "re_sub rx_non_latin del prev s =
          re_sub rx_non_latin del (prev_after prev s (length (takeWhile non_latin s)))
            (dropWhile non_latin s)"
        using Cons True len
        by (subst re_sub.simps) (simp add: rx_match_non_latin del_def)
      also have "\<dots> = filter (\<lambda>c. \<not> non_latin c) (dropWhile non_latin s)"
        using less [OF len] .
      also have "\<dots> = filter (\<lambda>c. \<not> non_latin c) s"
        by (induction s) auto
      finally show ?thesis .
    next
      case False
      have "re_sub rx_non_latin del prev s = c # re_sub rx_non_latin del (Some c) s'"
        using Cons False
        by (subst re_sub.simps) (simp add: rx_match_non_latin)
      then show ?thesis using less [of s'] Cons False by simp
    qed
  qed
qed

section \<open>The orchestrator invariant\<close>

lemma get_sections_upd:
  "get_sections (st\<lparr>messages := m\<rparr>) = get_sections st"
  "get_sections (st\<lparr>next_step := n\<rparr>) = get_sections st"
  "get_sections (st\<lparr>generated_content := g\<rparr>) = get_sections st"
  "get_sections (st\<lparr>current_section_index := i\<rparr>) = get_sections st"
  "get_sections (st\<lparr>sections := Some xs\<rparr>) = xs"
  by (simp_all add: get_sections_def)

lemma get_current_index_upd:
  "get_current_index (st\<lparr>messages := m\<rparr>) = get_current_index st"
  "get_current_index (st\<lparr>next_step := n\<rparr>) = get_current_index st"
  "get_current_index (st\<lparr>generated_content := g\<rparr>) = get_current_index st"
  "get_current_index (st\<lparr>sections := x\<rparr>) = get_current_index st"
  "get_current_index (st\<lparr>current_section_index := Some i\<rparr>) = i"
  by (simp_all add: get_current_index_def)

lemma record_section_sections:
  "get_sections (record_section st i name content) =
     get_sections st @ [if take 6 content = of_str ''Error:'' then minimal_section i name
                        else improve_section_content content name (i + 1)]"
  by (simp add: record_section_def Let_def get_sections_upd)

lemma record_section_index:
  "get_current_index (record_section st i name content) = get_current_index st"
  by (simp add: record_section_def Let_def get_current_index_upd)

lemma init_generated_sections:
  "get_sections (case generated_content st of None \<Rightarrow> st\<lparr>generated_content := Some []\<rparr>
                 | Some d \<Rightarrow> st) = get_sections st"
  by (simp add: get_sections_upd split: option.split)

lemma init_generated_index:
  "get_current_index (case generated_content st of None \<Rightarrow> st\<lparr>generated_content := Some []\<rparr>
                 | Some d \<Rightarrow> st) = get_current_index st"
  by (simp add: get_current_index_upd split: option.split)

lemma py_index_in_range:
  "0 \<le> i \<Longrightarrow> i < int (length xs) \<Longrightarrow> py_index xs i = Inr (xs ! nat i)"
  by (simp add: py_index_def)

text \<open>
  Claim C2. If the number of sections equals the cursor when \<open>generate_sections_node\<close>
  starts, the node returns a state (it does not raise) in which the number of sections
  equals the cursor again. Which branch runs is decided by the state at the start:
  \<^item> when the index or the requirement text is missing or empty, neither the sections nor
    the cursor change, and the next step is the end;
  \<^item> when both are there and the cursor has reached the number of sections of the index,
    neither changes, and the next step is the combination;
  \<^item> when both are there and the cursor is below the number of sections of the index,
    exactly one section is appended and the cursor grows by exactly one, for every answer
    of the generation backend (a text or an exception), and the next step is the
    generation again.
\<close>

theorem node_keeps_invariant:
  assumes inv: "int (length (get_sections st)) = get_current_index st"
  shows "\<exists>st'. generate_sections_node llm st = Inr st'
           \<and> int (length (get_sections st')) = get_current_index st'
           \<and> (index st = None \<or> index st = Some [] \<or> tdr_info st = None \<or> tdr_info st = Some []
                \<longrightarrow> get_sections st' = get_sections st
                    \<and> get_current_index st' = get_current_index st
                    \<and> next_step st' = Some End_step)
           \<and> (index st = Some idx \<and> idx \<noteq> [] \<and> tdr_info st = Some info \<and> info \<noteq> []
                \<and> int (length idx) \<le> get_current_index st
                \<longrightarrow> get_sections st' = get_sections st
                    \<and> get_current_index st' = get_current_index st
                    \<and> next_step st' = Some Combine_proposal)
           \<and> (index st = Some idx \<and> idx \<noteq> [] \<and> tdr_info st = Some info \<and> info \<noteq> []
                \<and> get_current_index st < int (length idx)
                \<longrightarrow> (\<exists>s. get_sections st' = get_sections st @ [s])
                    \<and> get_current_index st' = get_current_index st + 1
                    \<and> next_step st' = Some Generate_sections)"
proof -
  let ?ci = "get_current_index st"
  have ci0: "0 \<le> ?ci" using inv by linarith
  show ?thesis
  proof (cases "index st")
    case None
    then show ?thesis using inv
      by (simp add: generate_sections_node_def get_sections_upd get_current_index_upd)
  next
    case (Some idx')
    note idx = this
    show ?thesis
    proof (cases "tdr_info st")
      case None
      then show ?thesis using inv idx
        by (simp add: generate_sections_node_def get_sections_upd get_current_index_upd)
    next
      case (Some info')
      note info = this
      show ?thesis
      proof (cases "idx' = [] \<or> info' = []")
        case True
        then show ?thesis using inv idx info
          by (auto simp: generate_sections_node_def get_sections_upd get_current_index_upd)
      next
        case False
        note nonempty = this
        show ?thesis
        proof (cases "?ci \<ge> int (length idx')")
          case True
          then show ?thesis using inv idx info nonempty
            by (auto simp: generate_sections_node_def Let_def get_sections_upd
                  get_current_index_upd init_generated_sections init_generated_index)
        next
          case False
          then have lt: "?ci < int (length (map fst idx'))" by simp
          have pi: "py_index (map fst idx') ?ci = Inr (map fst idx' ! nat ?ci)"
            using py_index_in_range [OF ci0 lt] .
          show ?thesis using inv idx info nonempty False pi
            by (auto simp: generate_sections_node_def Let_def get_sections_upd
                  get_current_index_upd record_section_sections record_section_index
                  init_generated_sections init_generated_index)
        qed
      qed
    qed
  qed
qed

theorem node_keeps_invariant_witness:
  "\<exists>st'. generate_sections_node demo_backend demo_state = Inr st'
     \<and> length (get_sections st') = 1 \<and> get_current_index st' = 1
     \<and> next_step st' = Some Generate_sections"
proof -
  have h: "int (length (get_sections demo_state)) = get_current_index demo_state"
    by (simp add: demo_state_def get_sections_def get_current_index_def)
  have s: "get_sections demo_state = []" "get_current_index demo_state = 0"
    by (simp_all add: demo_state_def get_sections_def get_current_index_def)
  have i: "index demo_state = Some [(of_str ''alcance'', of_str ''d'')]"
    "[(of_str ''alcance'', of_str ''d'')] \<noteq> []"
    "tdr_info demo_state = Some (of_str ''t'')" "of_str ''t'' \<noteq> []"
    "get_current_index demo_state < int (length [(of_str ''alcance'', of_str ''d'')])"
    by (simp_all add: demo_state_def get_current_index_def of_str_def)
  from node_keeps_invariant [OF h, of demo_backend "[(of_str ''alcance'', of_str ''d'')]"
      "of_str ''t''"] i
  obtain st' where st': "generate_sections_node demo_backend demo_state = Inr st'"
    "\<exists>s. get_sections st' = get_sections demo_state @ [s]"
    "get_current_index st' = get_current_index demo_state + 1"
    "next_step st' = Some Generate_sections"
    by blast
  then have "length (get_sections st') = 1" using s by auto
  then show ?thesis using st' s by auto
qed
section \<open>A failing backend\<close>

lemma generate_section_no_error_prefix:
  "take 6 (generate_section llm req) \<noteq> of_str ''Error:''"
  by (cases "llm req") (simp_all add: generate_section_def of_str_def Let_def)

lemma failure_text_eval:
  "failure_text = [69, 114, 114, 111, 114, 32, 101, 110, 32, 115, 101, 99,
       99, 105, 243, 110, 32, 97, 108, 99, 97, 110, 99, 101, 58, 32, 69, 114, 114, 111, 114, 32, 97, 108, 32, 103,
       101, 110, 101, 114, 97, 114, 32, 115, 101, 99, 99, 105, 243, 110, 32,
       97, 108, 99, 97, 110, 99, 101, 58, 32,
       100, 111, 119, 110]"
  by (simp add: failure_text_def of_str_def seccion_def)

lemma generate_section_failing:
  "generate_section failing_backend
     \<lparr>req_section_name = of_str ''alcance'', req_description = d, req_info = i,
      req_previous_content = p\<rparr> = failure_text"
  by (simp add: generate_section_def failing_backend_def failure_text_def Let_def of_str_def)

lemma improve_failure_text:
  "improve_section_content failure_text (of_str ''alcance'') 1 =
     of_str ''## 1. ALCANCE'' @ [10, 10] @ failure_text"
proof -
  have a: "60 \<notin> set failure_text" "35 \<notin> set failure_text" "10 \<notin> set failure_text"
    by (simp_all add: failure_text_eval)
  have b: "filter (\<lambda>c. \<not> non_latin c) failure_text = failure_text"
    by (simp add: failure_text_eval non_latin_def)
  have c: "strip failure_text = failure_text"
    by (simp add: failure_text_eval strip_def lstrip_def rstrip_def isspace_def)
  have d: "py_upper (of_str ''alcance'') = of_str ''ALCANCE''"
    by code_simp
  have "improve_section_content failure_text (of_str ''alcance'') 1 =
      of_str ''## '' @ show_int 1 @ of_str ''. '' @ of_str ''ALCANCE'' @ [10, 10] @ failure_text"
    by (simp add: improve_section_content_def Let_def re_sub_think_id re_sub_non_latin
          re_sub_h2_line_id re_sub_h3_title_id re_sub_blank_lines_no_nl a b c d)
  then show ?thesis
    by (simp add: show_int_def of_str_def show_nat_small)
qed

lemma get_sections_None: "sections st = None \<Longrightarrow> get_sections st = []"
  by (simp add: get_sections_def)

text \<open>
  Claim C3 (the code departs from it). With a backend that raises on every call,
  \<open>generate_section\<close> returns a text that begins \<^verbatim>\<open>Error en\<close>, not \<^verbatim>\<open>Error:\<close>, so the
  node takes its success branch: the section it appends is the canonical heading followed by
  the error message, and it is not the placeholder section.
\<close>

theorem failing_backend_section_is_not_placeholder:
  "map_sum id get_sections (generate_sections_node failing_backend demo_state) =
     Inr [of_str ''## 1. ALCANCE'' @ [10, 10] @ of_str ''Error en '' @ seccion
            @ of_str '' alcance: Error al generar '' @ seccion @ of_str '' alcance: down'']
   \<and> map_sum id get_sections (generate_sections_node failing_backend demo_state) \<noteq>
     Inr [minimal_section 0 (of_str ''alcance'')]"
proof -
  have t: "take 6 failure_text \<noteq> of_str ''Error:''"
    by (simp add: failure_text_eval of_str_def)
  have n: "of_str ''t'' \<noteq> []"
    by (simp add: of_str_def)
  have "map_sum id get_sections (generate_sections_node failing_backend demo_state) =
     Inr [of_str ''## 1. ALCANCE'' @ [10, 10] @ failure_text]"
    unfolding generate_sections_node_def demo_state_def
    by (simp add: Let_def py_index_def get_current_index_def dict_get_def
          generate_section_failing record_section_sections improve_failure_text t n
          get_sections_upd get_sections_None)
  moreover have "of_str ''## 1. ALCANCE'' @ [10, 10] @ failure_text \<noteq>
      minimal_section 0 (of_str ''alcance'')"
    by (simp add: failure_text_eval minimal_section_def of_str_def show_int_def show_nat_small)
  ultimately show ?thesis
    by (simp add: failure_text_def)
qed

section \<open>Renumbering\<close>

lemma doc21_eval: "doc21 = [35, 35, 32, 50, 46, 32, 65, 10, 35, 35, 32, 49, 46, 32, 66, 10]"
  by (simp add: doc21_def of_str_def)

lemma doc21_chapters: "re_findall rx_chapter True None doc21 = [[50], [49]]"
  unfolding doc21_eval rx_chapter_def of_str_def
  by (simp add: re_findall.simps rx_eval)

lemma doc21_subsections: "re_findall rx_subsection True None doc21 = []"
  unfolding doc21_eval rx_subsection_def of_str_def
  by (simp add: re_findall.simps rx_eval)

lemma doc21_section_numbers:
  "re_findall rx_section_number False None doc21 = [[35, 35, 32, 50, 46, 32], [35, 35, 32, 49, 46, 32]]"
  unfolding doc21_eval rx_section_number_def of_str_def
  by (simp add: re_findall.simps rx_eval)

lemma doc21_validate:
  "validate_numbering doc21
     = Some \<lparr>num_valid = False, num_issues = [Non_sequential [2, 1] [1, 2]]\<rparr>"
  by (simp add: validate_numbering_def sequential_issues_def chapter_numbers_def
        subsection_labels_def doc21_chapters doc21_subsections py_int_def int_of_digits_def
        digit_value_ascii Let_def)

lemma doc21_clean:
  "re_sub rx_think del None (re_sub rx_non_latin del None doc21) = doc21"
proof -
  have "filter (\<lambda>c. \<not> non_latin c) doc21 = doc21"
    by (simp add: doc21_eval non_latin_def)
  moreover have "60 \<notin> set doc21"
    by (simp add: doc21_eval)
  ultimately show ?thesis
    by (simp add: re_sub_non_latin re_sub_think_id)
qed

lemma doc21_fix:
  "\<not> num_valid r \<Longrightarrow> fix_issues doc21 r =
      [35, 35, 32, 50, 46, 32, 65, 10, 35, 35, 32, 50, 46, 32, 66, 10]"
  unfolding fix_issues_def
  by (simp add: Let_def doc21_clean doc21_section_numbers show_nat_small of_str_def)
     (simp add: doc21_eval)

text \<open>
  Claim C4 (the code departs from it). On a document whose two headings are numbered 2
  and 1, \<open>validate_numbering\<close> reports the numbering invalid, with the numbers found and
  the numbers expected. \<open>fix_issues\<close> then replaces every occurrence of each matched
  heading prefix in turn: the first round turns both headings into number 1, the second
  round turns both into number 2. The headings read 2, 2 and not 1, 2.
\<close>

theorem fix_issues_repeats_number:
  "validate_numbering doc21
     = Some \<lparr>num_valid = False, num_issues = [Non_sequential [2, 1] [1, 2]]\<rparr>
   \<and> fix_issues doc21 \<lparr>num_valid = False, num_issues = [Non_sequential [2, 1] [1, 2]]\<rparr> =
       of_str ''## 2. A'' @ [10] @ of_str ''## 2. B'' @ [10]
   \<and> chapter_numbers
        (fix_issues doc21 \<lparr>num_valid = False, num_issues = [Non_sequential [2, 1] [1, 2]]\<rparr>)
       = Some [2, 2]"
proof -
  let ?r = "\<lparr>num_valid = False, num_issues = [Non_sequential [2, 1] [1, 2]]\<rparr>"
  have nv: "\<not> num_valid ?r"
    by simp
  have ch: "chapter_numbers [35, 35, 32, 50, 46, 32, 65, 10, 35, 35, 32, 50, 46, 32, 66, 10]
      = Some [2, 2]"
    unfolding chapter_numbers_def rx_chapter_def of_str_def
    by (simp add: re_findall.simps rx_eval py_int_def int_of_digits_def digit_value_ascii)
  show ?thesis
    unfolding doc21_fix [OF nv] ch
    by (simp add: doc21_validate of_str_def)
qed

section \<open>The subsection hierarchy\<close>

lemma label_ok_pair:
  "label_ok (a, b) (c, d) \<longleftrightarrow> (if c = a then d = b + 1 else a < c \<and> d = 1)"
  by (simp add: label_ok_def)

lemma chapter_match_lengths:
  assumes "chapter_match l = Some (a, b)"
  shows "length a \<le> length l" and "length b \<le> length l"
proof -
  from assms have a: "a = takeWhile isdigit l"
    and b: "b = takeWhile isdigit (drop 1 (dropWhile isdigit l))"
    by (simp_all add: chapter_match_def Let_def split: if_splits)
  show "length a \<le> length l" unfolding a by (rule length_takeWhile_le)
  have "length b \<le> length (drop 1 (dropWhile isdigit l))"
    unfolding b by (rule length_takeWhile_le)
  also have "\<dots> \<le> length (dropWhile isdigit l)" by simp
  also have "\<dots> \<le> length l" by (rule length_dropWhile_le)
  finally show "length b \<le> length l" .
qed

lemma hierarchy_step_short:
  assumes "length l \<le> 4300"
  shows "hierarchy_step prev l =
     Some (case label_numbers l of
             None \<Rightarrow> ([], prev)
           | Some q \<Rightarrow> compare_labels prev (fst q) (snd q))"
proof (cases "chapter_match l")
  case None
  then show ?thesis by (simp add: hierarchy_step_def label_numbers_def)
next
  case (Some groups)
  obtain a b where g: "groups = (a, b)" by (cases groups)
  from chapter_match_lengths [OF Some [unfolded g]] assms
  have "length a \<le> 4300" "length b \<le> 4300" by simp_all
  then show ?thesis using Some g
    by (simp add: hierarchy_step_def label_numbers_def py_int_def)
qed

lemma compare_labels_violations:
  "fst (compare_labels (Some p) (fst q) (snd q)) @
     violations (the (snd (compare_labels (Some p) (fst q) (snd q)))) qs
   = violations p (q # qs)"
  by (cases p; cases q) (simp add: compare_labels_def)

lemma compare_labels_Some:
  "snd (compare_labels (Some p) c s) \<noteq> None"
  by (cases p) (simp add: compare_labels_def)

lemma check_hierarchy_Some:
  assumes "\<forall>l\<in>set ls. length l \<le> 4300"
  shows "check_hierarchy (Some p) ls = Some (violations p (List.map_filter label_numbers ls))"
  using assms
proof (induction ls arbitrary: p)
  case Nil
  then show ?case by (simp add: List.map_filter_simps)
next
  case (Cons l ls)
  have short: "length l \<le> 4300" and rest: "\<forall>l\<in>set ls. length l \<le> 4300"
    using Cons.prems by simp_all
  show ?case
  proof (cases "label_numbers l")
    case None
    then show ?thesis using Cons.IH [OF rest, of p]
      by (simp add: hierarchy_step_short [OF short] List.map_filter_simps)
  next
    case (Some q)
    obtain p' where p': "snd (compare_labels (Some p) (fst q) (snd q)) = Some p'"
      using compare_labels_Some [of p "fst q" "snd q"] by blast
    have "check_hierarchy (Some p) (l # ls) =
        Some (fst (compare_labels (Some p) (fst q) (snd q))
                @ violations p' (List.map_filter label_numbers ls))"
      using Some p' Cons.IH [OF rest, of p']
      by (simp add: hierarchy_step_short [OF short])
    also have "fst (compare_labels (Some p) (fst q) (snd q))
                @ violations p' (List.map_filter label_numbers ls)
        = violations p (q # List.map_filter label_numbers ls)"
      using compare_labels_violations [of p q "List.map_filter label_numbers ls"] p' by simp
    finally show ?thesis using Some by (simp add: List.map_filter_simps)
  qed
qed

lemma check_hierarchy_None:
  assumes "\<forall>l\<in>set ls. length l \<le> 4300"
  shows "check_hierarchy None ls = Some (hierarchy_issues (List.map_filter label_numbers ls))"
  using assms
proof (induction ls)
  case Nil
  then show ?case by (simp add: List.map_filter_simps hierarchy_issues_def)
next
  case (Cons l ls)
  have short: "length l \<le> 4300" and rest: "\<forall>l\<in>set ls. length l \<le> 4300"
    using Cons.prems by simp_all
  show ?case
  proof (cases "label_numbers l")
    case None
    then show ?thesis using Cons.IH [OF rest]
      by (simp add: hierarchy_step_short [OF short] List.map_filter_simps)
  next
    case (Some q)
    then show ?thesis using check_hierarchy_Some [OF rest, of q]
      by (simp add: hierarchy_step_short [OF short] List.map_filter_simps compare_labels_def
            hierarchy_issues_def)
  qed
qed

lemma violations_empty_iff: "violations p qs = [] \<longleftrightarrow> successively label_ok (p # qs)"
proof (induction qs arbitrary: p)
  case Nil
  show ?case by simp
next
  case (Cons q qs)
  show ?case using Cons.IH [of q] by (auto simp: label_ok_def)
qed

lemma hierarchy_issues_empty_iff: "hierarchy_issues labels = [] \<longleftrightarrow> hierarchical labels"
  by (cases labels) (simp_all add: hierarchy_issues_def hierarchical_def violations_empty_iff)

lemma sequential_issues_shape:
  "sequential_issues t = [] \<or> (\<exists>ns es. sequential_issues t = [Non_sequential ns es])"
  by (simp add: sequential_issues_def Let_def split: option.splits)

text \<open>
  A label whose chapter number has 4301 digits makes the loop raise: the conversion of the
  number is not caught.
\<close>

lemma isdigit_49: "isdigit 49" "\<not> isdigit 46"
  by (simp_all add: isdigit_small)

lemma long_label_match:
  "chapter_match (replicate n 49 @ [46, 49]) =
     (if n = 0 then None else Some (replicate n 49, [49]))"
proof -
  have t: "takeWhile isdigit (replicate n 49 @ [46, 49]) = replicate n 49"
    by (induction n) (simp_all add: isdigit_49)
  have d: "dropWhile isdigit (replicate n 49 @ [46, 49]) = [46, 49]"
    by (induction n) (simp_all add: isdigit_49)
  show ?thesis
    by (simp add: chapter_match_def Let_def t d isdigit_49)
qed

lemma long_label_raises: "check_hierarchy prev [replicate 4301 49 @ [46, 49]] = None"
  by (simp add: hierarchy_step_def long_label_match py_int_def)

text \<open>
  Claim C5, as amended. For a document whose subsection labels have at most 4300
  characters, the validator returns a report. Its issues are the issues of the top-level
  rule (none, or one that names the numbers found and expected) followed by the issues of
  the hierarchy rule, which are those of \<open>violations\<close>: one for every label that breaks
  the rule against its reference label, with the labels as described there. No hierarchy
  issue is recorded exactly when every two consecutive labels respect the hierarchy, the
  numbering is valid exactly when no issue at all has been recorded, and so it is invalid
  whenever two consecutive labels do not respect the hierarchy.
\<close>

theorem hierarchy_rule:
  assumes "\<forall>l\<in>set (subsection_labels t). length l \<le> 4300"
  shows "\<exists>r top. validate_numbering t = Some r
           \<and> num_issues r = top @ hierarchy_issues (subsection_numbers t)
           \<and> (top = [] \<or> (\<exists>ns es. top = [Non_sequential ns es]))
           \<and> (num_valid r \<longleftrightarrow> num_issues r = [])
           \<and> (hierarchy_issues (subsection_numbers t) = []
                \<longleftrightarrow> hierarchical (subsection_numbers t))
           \<and> (\<not> hierarchical (subsection_numbers t) \<longrightarrow> \<not> num_valid r)"
proof -
  let ?h = "hierarchy_issues (subsection_numbers t)"
  let ?r = "\<lparr>num_valid = (sequential_issues t = [] \<and> ?h = []),
             num_issues = sequential_issues t @ ?h\<rparr>"
  have v: "validate_numbering t = Some ?r"
    by (simp add: validate_numbering_def Let_def check_hierarchy_None [OF assms]
          subsection_numbers_def)
  have e: "?h = [] \<longleftrightarrow> hierarchical (subsection_numbers t)"
    by (rule hierarchy_issues_empty_iff)
  have "num_issues ?r = sequential_issues t @ ?h
      \<and> (sequential_issues t = [] \<or> (\<exists>ns es. sequential_issues t = [Non_sequential ns es]))
      \<and> (num_valid ?r \<longleftrightarrow> num_issues ?r = [])
      \<and> (?h = [] \<longleftrightarrow> hierarchical (subsection_numbers t))
      \<and> (\<not> hierarchical (subsection_numbers t) \<longrightarrow> \<not> num_valid ?r)"
    using e sequential_issues_shape [of t] by simp
  with v show ?thesis by blast
qed

lemma doc_gap_labels: "subsection_labels doc_gap = [[49, 46, 49], [49, 46, 51]]"
  unfolding doc_gap_def subsection_labels_def rx_subsection_def of_str_def
  by (simp add: re_findall.simps rx_eval)

lemma label_numbers_eval:
  "label_numbers [49, 46, 49] = Some (1, 1)"
  "label_numbers [49, 46, 51] = Some (1, 3)"
  "label_numbers [49, 46, 53] = Some (1, 5)"
  "label_numbers [50, 46, 50] = Some (2, 2)"
  by (simp_all add: label_numbers_def chapter_match_def isdigit_small int_of_digits_def
        digit_value_ascii Let_def)

theorem hierarchy_rule_witness:
  "\<exists>r top. validate_numbering doc_gap = Some r
     \<and> num_issues r = top @ [Subsection_gap 1 1 1 3] \<and> \<not> num_valid r"
proof -
  have short: "\<forall>l\<in>set (subsection_labels doc_gap). length l \<le> 4300"
    by (simp add: doc_gap_labels)
  have n: "subsection_numbers doc_gap = [(1, 1), (1, 3)]"
    by (simp add: subsection_numbers_def doc_gap_labels List.map_filter_simps
          label_numbers_eval)
  have h: "hierarchy_issues (subsection_numbers doc_gap) = [Subsection_gap 1 1 1 3]"
    by (simp add: n hierarchy_issues_def)
  have nh: "\<not> hierarchical (subsection_numbers doc_gap)"
    by (simp add: n hierarchical_def label_ok_def)
  from hierarchy_rule [OF short] obtain r top where
    "validate_numbering doc_gap = Some r"
    "num_issues r = top @ hierarchy_issues (subsection_numbers doc_gap)"
    "\<not> hierarchical (subsection_numbers doc_gap) \<longrightarrow> \<not> num_valid r"
    by blast
  then show ?thesis using h nh by auto
qed

text \<open>
  Claim C5 as stated fails. A document whose only subsection is 1.5 is reported valid,
  although the first subsection of its chapter is not .1. A document with the single
  heading \<^verbatim>\<open>## 2. A\<close> and no subsection label at all is reported invalid. A chapter
  that does not start with .1 is recorded with its own label only, not with a pair.
\<close>

theorem numbering_counterexample:
  "validate_numbering doc_first5 = Some \<lparr>num_valid = True, num_issues = []\<rparr>
   \<and> subsection_numbers doc_first5 = [(1, 5)]
   \<and> validate_numbering doc_ch2 = Some \<lparr>num_valid = False, num_issues = [Non_sequential [2] [1]]\<rparr>
   \<and> subsection_labels doc_ch2 = []
   \<and> validate_numbering doc_second = Some \<lparr>num_valid = False, num_issues = [First_not_one 2 2]\<rparr>
   \<and> subsection_numbers doc_second = [(1, 1), (2, 2)]"
proof -
  have a: "re_findall rx_chapter True None doc_first5 = [[49]]"
    unfolding doc_first5_def rx_chapter_def of_str_def
    by (simp add: re_findall.simps rx_eval)
  have b: "subsection_labels doc_first5 = [[49, 46, 53]]"
    unfolding doc_first5_def subsection_labels_def rx_subsection_def of_str_def
    by (simp add: re_findall.simps rx_eval)
  have c: "re_findall rx_chapter True None doc_ch2 = [[50]]"
    unfolding doc_ch2_def rx_chapter_def of_str_def
    by (simp add: re_findall.simps rx_eval)
  have d: "subsection_labels doc_ch2 = []"
    unfolding doc_ch2_def subsection_labels_def rx_subsection_def of_str_def
    by (simp add: re_findall.simps rx_eval)
  have e: "re_findall rx_chapter True None doc_second = [[49], [50]]"
    unfolding doc_second_def rx_chapter_def of_str_def
    by (simp add: re_findall.simps rx_eval)
  have f: "subsection_labels doc_second = [[49, 46, 49], [50, 46, 50]]"
    unfolding doc_second_def subsection_labels_def rx_subsection_def of_str_def
    by (simp add: re_findall.simps rx_eval)
  have i: "py_int [49] = Some 1" "py_int [50] = Some 2"
    by (simp_all add: py_int_def int_of_digits_def digit_value_ascii)
  have s1: "sequential_issues doc_first5 = []"
    by (simp add: sequential_issues_def chapter_numbers_def a i)
  have s2: "sequential_issues doc_ch2 = [Non_sequential [2] [1]]"
    by (simp add: sequential_issues_def chapter_numbers_def c i)
  have s3: "sequential_issues doc_second = []"
    by (simp add: sequential_issues_def chapter_numbers_def e i)
  have h1: "check_hierarchy None [[49, 46, 53]] = Some []"
    by (simp add: hierarchy_step_short label_numbers_eval compare_labels_def)
  have h3: "check_hierarchy None [[49, 46, 49], [50, 46, 50]] = Some [First_not_one 2 2]"
    by (simp add: hierarchy_step_short label_numbers_eval compare_labels_def)
  have v1: "validate_numbering doc_first5 = Some \<lparr>num_valid = True, num_issues = []\<rparr>"
    by (simp add: validate_numbering_def s1 b h1 del: check_hierarchy.simps)
  have v2: "validate_numbering doc_ch2
      = Some \<lparr>num_valid = False, num_issues = [Non_sequential [2] [1]]\<rparr>"
    by (simp add: validate_numbering_def s2 d)
  have v3: "validate_numbering doc_second
      = Some \<lparr>num_valid = False, num_issues = [First_not_one 2 2]\<rparr>"
    by (simp add: validate_numbering_def s3 f h3 del: check_hierarchy.simps)
  have n1: "subsection_numbers doc_first5 = [(1, 5)]"
    by (simp add: subsection_numbers_def b List.map_filter_simps label_numbers_eval)
  have n3: "subsection_numbers doc_second = [(1, 1), (2, 2)]"
    by (simp add: subsection_numbers_def f List.map_filter_simps label_numbers_eval)
  show ?thesis using v1 v2 v3 n1 n3 d by simp
qed
section \<open>The chunker on blank input\<close>

lemma rx_match_absent_Ch:
  "(\<And>c. c \<in> set s \<Longrightarrow> \<not> p c) \<Longrightarrow> rx_match (pre @ Ch p # post) prev s gs cap = None"
proof (induction pre arbitrary: prev s gs cap)
  case Nil
  then show ?case by (cases s) auto
next
  case (Cons a pre)
  have sub: "\<And>k c. c \<in> set (drop k s) \<Longrightarrow> \<not> p c"
    using Cons.prems by (meson in_set_dropD)
  show ?case
  proof (cases a)
    case (Ch q)
    then show ?thesis using Cons by (cases s) auto
  next
    case (Rep g q lo)
    then show ?thesis using Cons.IH sub
      by (auto simp: Let_def intro!: first_some_None)
  qed (use Cons.IH Cons.prems sub in auto)
qed

lemma rx_match_absent_Rep:
  "(\<And>c. c \<in> set s \<Longrightarrow> \<not> p c) \<Longrightarrow>
     rx_match (pre @ Rep g p (Suc n) # post) prev s gs cap = None"
proof (induction pre arbitrary: prev s gs cap)
  case Nil
  have "takeWhile p s = []" using Nil by (cases s) auto
  then show ?case by simp
next
  case (Cons a pre)
  have sub: "\<And>k c. c \<in> set (drop k s) \<Longrightarrow> \<not> p c"
    using Cons.prems by (meson in_set_dropD)
  show ?case
  proof (cases a)
    case (Ch q)
    then show ?thesis using Cons by (cases s) auto
  next
    case (Rep g q lo)
    then show ?thesis using Cons.IH sub
      by (auto simp: Let_def intro!: first_some_None)
  qed (use Cons.IH Cons.prems sub in auto)
qed

lemma re_search_no_match:
  assumes "\<And>prev' s'. set s' \<subseteq> set s \<Longrightarrow> rx_match rx prev' s' None None = None"
  shows "\<not> re_search rx prev s"
  using assms
proof (induction s arbitrary: prev)
  case Nil
  then show ?case by (subst re_search.simps) simp
next
  case (Cons c s)
  have "rx_match rx prev (c # s) None None = None"
    using Cons.prems by blast
  moreover have "\<not> re_search rx (Some c) s"
    by (rule Cons.IH) (use Cons.prems in auto)
  ultimately show ?case by (subst re_search.simps) simp
qed

lemma strip_all_space: "(\<And>c. c \<in> set s \<Longrightarrow> isspace c) \<Longrightarrow> strip s = []"
proof -
  assume a: "\<And>c. c \<in> set s \<Longrightarrow> isspace c"
  then have h: "dropWhile isspace s = []" by (induction s) auto
  show ?thesis unfolding strip_def lstrip_def rstrip_def h by simp
qed

lemma no_section_in_blank:
  assumes ws: "\<And>c. c \<in> set txt \<Longrightarrow> isspace c"
  shows "split_by_sections chunk_size section_patterns txt = []"
proof -
  have ws10: "\<And>c. c \<in> set (10 # txt) \<Longrightarrow> isspace c"
    using ws by (auto simp: isspace_def)
  have sub: "\<And>s' c. set s' \<subseteq> set (10 # txt) \<Longrightarrow> c \<in> set s' \<Longrightarrow> isspace c"
    using ws10 by blast
  have a: "\<not> re_search rx_markdown_header None (10 # txt)"
  proof (rule re_search_no_match)
    fix prev' s' assume "set s' \<subseteq> set (10 # txt)"
    then have "\<And>c. c \<in> set s' \<Longrightarrow> \<not> is_char 35 c"
      using sub by (fastforce simp: is_char_def isspace_def)
    then show "rx_match rx_markdown_header prev' s' None None = None"
      unfolding rx_markdown_header_def One_nat_def
      using rx_match_absent_Rep [of s' "is_char 35" "[Ch (is_char 10)]"] by simp
  qed
  have b: "\<not> re_search rx_numbered_section None (10 # txt)"
  proof (rule re_search_no_match)
    fix prev' s' assume s': "set s' \<subseteq> set (10 # txt)"
    have "\<not> isdigit c" if "c \<in> set s'" for c
      using sub [OF s' that] by (rule isspace_not_digit)
    then show "rx_match rx_numbered_section prev' s' None None = None"
      unfolding rx_numbered_section_def One_nat_def
      using rx_match_absent_Rep [of s' isdigit "[Ch (is_char 10), GOpen]"] by simp
  qed
  have c: "\<not> re_search rx_caps_title None (10 # txt)"
  proof (rule re_search_no_match)
    fix prev' s' assume "set s' \<subseteq> set (10 # txt)"
    then have "\<And>c. c \<in> set s' \<Longrightarrow> \<not> is_upper_az c"
      using sub by (fastforce simp: is_upper_az_def isspace_def)
    then show "rx_match rx_caps_title prev' s' None None = None"
      unfolding rx_caps_title_def
      using rx_match_absent_Ch [of s' is_upper_az "[Ch (is_char 10), GOpen]"] by simp
  qed
  have d: "\<not> re_search rx_colon_title None (10 # txt)"
  proof (rule re_search_no_match)
    fix prev' s' assume "set s' \<subseteq> set (10 # txt)"
    then have "\<And>c. c \<in> set s' \<Longrightarrow> \<not> is_char 58 c"
      using sub by (fastforce simp: is_char_def isspace_def)
    then show "rx_match rx_colon_title prev' s' None None = None"
      unfolding rx_colon_title_def
      using rx_match_absent_Ch [of s' "is_char 58" "[Ch (is_char 10), GOpen, Rep False not_nl 0]"]
      by simp
  qed
  show ?thesis
    by (simp add: section_patterns_def a b c d)
qed

lemma str_split_set:
  "p \<in> set (str_split sep acc s) \<Longrightarrow> set p \<subseteq> set acc \<union> set s"
proof (induction sep acc s rule: str_split.induct)
  case (1 sep acc)
  then show ?case by simp
next
  case (2 sep acc c s)
  show ?case
  proof (cases "sep \<noteq> [] \<and> take (length sep) (c # s) = sep")
    case True
    then have "p = rev acc \<or> p \<in> set (str_split sep [] (drop (length sep) (c # s)))"
      using "2.prems" by simp
    then show ?thesis
    proof
      assume "p = rev acc" then show ?thesis by auto
    next
      assume "p \<in> set (str_split sep [] (drop (length sep) (c # s)))"
      then have "set p \<subseteq> set [] \<union> set (drop (length sep) (c # s))"
        using "2.IH"(1) True by blast
      then show ?thesis using set_drop_subset [of "length sep" "c # s"] by auto
    qed
  next
    case False
    then have "p \<in> set (str_split sep (c # acc) s)"
      using "2.prems" by auto
    then have "set p \<subseteq> set (c # acc) \<union> set s"
      using "2.IH"(2) False by blast
    then show ?thesis by auto
  qed
qed

lemma coalesce_paragraphs_blank:
  "(\<And>p. p \<in> set ps \<Longrightarrow> strip p = []) \<Longrightarrow>
     coalesce_paragraphs chunk_size chunk_overlap chunks cur ps = (chunks, cur)"
  by (induction ps) (simp_all add: Let_def)

lemma no_paragraph_in_blank:
  assumes ws: "\<And>c. c \<in> set txt \<Longrightarrow> isspace c"
  shows "split_by_paragraphs chunk_size chunk_overlap txt = []"
proof -
  have "\<And>p. p \<in> set (str_split [10, 10] [] txt) \<Longrightarrow> strip p = []"
  proof -
    fix p assume "p \<in> set (str_split [10, 10] [] txt)"
    then have "set p \<subseteq> set txt" using str_split_set by fastforce
    then show "strip p = []" using ws by (intro strip_all_space) blast
  qed
  then show ?thesis
    by (simp add: split_by_paragraphs_def coalesce_paragraphs_blank)
qed

lemma py_slice_set: "set (py_slice s a b) \<subseteq> set s"
  unfolding py_slice_def Let_def
  by (meson set_drop_subset set_take_subset subset_trans)

text \<open>
  Claim C9. For a document that is empty or consists of whitespace only, and parameters
  with \<open>0 < chunk_overlap < chunk_size\<close>, \<open>chunk_document\<close> returns the empty list
  of chunks; it does not raise.
\<close>

theorem blank_document_has_no_chunks:
  assumes ws: "\<forall>c \<in> set txt. isspace c"
    and ov: "0 < chunk_overlap" "chunk_overlap < chunk_size"
  shows "chunk_document txt chunk_size chunk_overlap = Inr []"
proof -
  have w: "\<And>c. c \<in> set txt \<Longrightarrow> isspace c" using ws by blast
  have sl: "\<And>a b. strip (py_slice txt a b) = []"
    by (rule strip_all_space) (use w py_slice_set in blast)
  have strip_nil: "strip [] = []"
    by (simp add: strip_def lstrip_def rstrip_def)
  have "filter (\<lambda>c. strip c \<noteq> [])
          (map (\<lambda>i. strip (py_slice txt (int i) (int i + chunk_size)))
             (range_starts (length txt) (nat (chunk_size - chunk_overlap)))) = []"
    by (simp add: sl strip_nil filter_empty_conv)
  then show ?thesis using ov
    by (simp add: chunk_document_def Let_def no_section_in_blank [OF w]
          no_paragraph_in_blank [OF w] split_by_size_def sl)
qed


theorem blank_document_has_no_chunks_witness:
  "list_all isspace blank_doc \<and> (0::int) < 200 \<and> (200::int) < 1000
   \<and> chunk_document blank_doc 1000 200 = Inr []"
proof -
  have ws: "\<forall>c \<in> set blank_doc. isspace c"
    by (simp add: blank_doc_def isspace_def)
  from blank_document_has_no_chunks [OF ws, of 200 1000] ws show ?thesis
    by (simp add: list_all_iff)
qed

section \<open>The size of a chunk\<close>





























section \<open>A repaired outline\<close>

lemma tcr_eval: "trailing_comma_response =
   [123, 34, 79, 66, 74, 69, 84, 73, 86, 79, 83, 34, 58, 32, 34, 120, 34, 44, 125]"
  by (simp add: trailing_comma_response_def of_str_def)

lemma rr_eval: "repaired_response =
   [123, 34, 79, 66, 74, 69, 84, 73, 86, 79, 83, 34, 58, 32, 34, 120, 34, 125]"
  by (simp add: repaired_response_def of_str_def)

lemma tcr_think: "re_sub rx_think del None trailing_comma_response = trailing_comma_response"
  by (rule re_sub_think_id) (simp add: tcr_eval)

lemma tcr_before: "re_sub rx_before_brace del None trailing_comma_response = trailing_comma_response"
  unfolding tcr_eval rx_before_brace_def
  by (simp add: re_sub.simps rx_eval del_def)

lemma tcr_after: "re_sub rx_after_brace del None trailing_comma_response = trailing_comma_response"
  unfolding tcr_eval rx_after_brace_def
  by (simp add: re_sub.simps rx_eval del_def)

lemma contains_absent: "sub \<noteq> [] \<Longrightarrow> hd sub \<notin> set s \<Longrightarrow> \<not> contains sub s"
proof (induction s)
  case Nil
  then show ?case by simp
next
  case (Cons c s)
  have "take (length sub) (c # s) \<noteq> sub"
  proof
    assume "take (length sub) (c # s) = sub"
    then have "hd sub = c" using Cons.prems(1) by (cases sub) auto
    then show False using Cons.prems(2) by simp
  qed
  then show ?case using Cons by simp
qed

lemma tcr_fences: "strip_fences trailing_comma_response = trailing_comma_response"
proof -
  have "96 \<notin> set trailing_comma_response" by (simp add: tcr_eval)
  then have "\<not> contains fence_json trailing_comma_response" "\<not> contains fence trailing_comma_response"
    using contains_absent [of fence_json trailing_comma_response]
      contains_absent [of fence trailing_comma_response]
    by (simp_all add: fence_json_def fence_def)
  then show ?thesis by (simp add: strip_fences_def)
qed

lemma tcr_repair:
  "re_sub rx_comma_bracket (\<lambda>cap. [93]) None
     (re_sub rx_comma_brace (\<lambda>cap. [125]) None trailing_comma_response) = repaired_response"
  unfolding tcr_eval rr_eval rx_comma_brace_def rx_comma_bracket_def
  by (simp add: re_sub.simps rx_eval)

lemma not_covered: "\<not> covered (of_str ''INTRODUCCION'') repaired_outline"
  by (simp add: covered_def repaired_outline_def key_form_def py_upper_def upper_char_def
        of_str_def)

text \<open>
  Claim C7 (the code departs from it). The language model answers with an outline that
  holds the single section OBJETIVOS and a comma before the closing brace. For every
  \<^verbatim>\<open>json.loads\<close> that rejects this text and reads the text without the comma as that
  outline, \<open>generate_index\<close> returns the text without the comma as it is: the check of
  the required sections is not run on a repaired response, and the outline returned does
  not cover INTRODUCCION.
\<close>

theorem repaired_outline_not_completed:
  assumes "loads trailing_comma_response = None"
    and "loads repaired_response = Some (JObj repaired_outline)"
  shows "generate_index loads (\<lambda>info. Inr trailing_comma_response) info = Raw repaired_response
     \<and> parsed_outline loads (generate_index loads (\<lambda>info. Inr trailing_comma_response) info)
         = Some (JObj repaired_outline)
     \<and> \<not> covered (of_str ''INTRODUCCION'') repaired_outline"
  using assms
  by (simp add: generate_index_def Let_def tcr_think tcr_before tcr_after tcr_fences tcr_repair
        not_covered parsed_outline_def)

theorem repaired_outline_not_completed_witness:
  "generate_index loads_example (\<lambda>info. Inr trailing_comma_response) [] = Raw repaired_response
   \<and> parsed_outline loads_example
        (generate_index loads_example (\<lambda>info. Inr trailing_comma_response) [])
       = Some (JObj repaired_outline)"
proof -
  have a: "loads_example trailing_comma_response = None"
    by (simp add: loads_example_def tcr_eval rr_eval)
  have b: "loads_example repaired_response = Some (JObj repaired_outline)"
    by (simp add: loads_example_def)
  from repaired_outline_not_completed [OF a b, of "[]"] show ?thesis by blast
qed

section \<open>Retrieval: cardinality and fallback\<close>

lemma contains_iff: "contains v s \<longleftrightarrow> occurs_in v s"
proof (induction s)
  case Nil
  show ?case by (auto simp: occurs_in_def)
next
  case (Cons c s)
  show ?case
  proof
    assume "contains v (c # s)"
    then consider "take (length v) (c # s) = v" | "contains v s" by auto
    then show "occurs_in v (c # s)"
    proof cases
      case 1
      then have "c # s = [] @ v @ drop (length v) (c # s)"
        by (metis append_Nil append_take_drop_id)
      then show ?thesis unfolding occurs_in_def by blast
    next
      case 2
      then obtain b a where "s = b @ v @ a" using Cons.IH by (auto simp: occurs_in_def)
      then have "c # s = (c # b) @ v @ a" by simp
      then show ?thesis unfolding occurs_in_def by blast
    qed
  next
    assume "occurs_in v (c # s)"
    then obtain b a where ba: "c # s = b @ v @ a" by (auto simp: occurs_in_def)
    show "contains v (c # s)"
    proof (cases b)
      case Nil
      then have "take (length v) (c # s) = v" using ba by simp
      then show ?thesis by simp
    next
      case (Cons d b')
      then have "s = b' @ v @ a" using ba by simp
      then have "occurs_in v s" unfolding occurs_in_def by blast
      then show ?thesis using Cons.IH by simp
    qed
  qed
qed

lemma extend_variants_set:
  "set (extend_variants n ms vs) =
     set vs \<union> {v. \<exists>key alternatives. (key, alternatives) \<in> set ms
                    \<and> (occurs_in key n \<or> (\<exists>alt\<in>set alternatives. occurs_in alt n))
                    \<and> v \<in> set alternatives}"
proof (induction ms arbitrary: vs)
  case Nil
  show ?case by simp
next
  case (Cons m ms)
  obtain key alts where m: "m = (key, alts)" by (cases m)
  show ?case
    unfolding m extend_variants.simps Cons.IH
    by (auto simp: contains_iff list_ex_iff)
qed

lemma get_section_variants_set:
  "set (get_section_variants str name) =
     insert (lower_of str name) (matching_alternatives (lower_of str name))
       \<union> (let clean_name =
                  strip (filter (\<lambda>c. \<not> isdigit_of str c \<and> c \<noteq> 46 \<and> c \<noteq> 45 \<and> c \<noteq> 58)
                           (lower_of str name))
            in if clean_name \<noteq> [] then {clean_name} else {})"
  by (auto simp: get_section_variants_def Let_def extend_variants_set matching_alternatives_def)

lemma mentions_section_iff:
  "mentions_section str vs r \<longleftrightarrow>
     (\<exists>v\<in>set vs. occurs_in v (lower_of str (page_content (fst r))))"
  by (simp add: mentions_section_def Let_def list_ex_iff contains_iff)

lemma search_selects:
  fixes results :: "(document \<times> 'a) list"
  assumes r: "db (combined_query name query) (k * 3) = Inr results" and ne: "results \<noteq> []"
      and k: "1 \<le> k"
  shows "search_similar_content str stem (Some db) query name k
     = map (format_result stem)
         (take (nat k)
            (if \<exists>r\<in>set results. mentions_section str (get_section_variants str name) r
             then filter (mentions_section str (get_section_variants str name)) results
             else results))"
proof -
  let ?m = "mentions_section str (get_section_variants str name)"
  have fe: "filter ?m results = [] \<longleftrightarrow> \<not> (\<exists>r\<in>set results. ?m r)"
    by (simp add: filter_empty_conv)
  show ?thesis
  proof (cases "\<exists>r\<in>set results. ?m r")
    case True
    then have "filter ?m results \<noteq> []" using fe by blast
    then show ?thesis using r k True
      by (simp add: search_similar_content_def Let_def py_take_def)
  next
    case False
    then have "filter ?m results = []" using fe by blast
    then show ?thesis using r k ne False
      by (simp add: search_similar_content_def Let_def py_take_def)
  qed
qed

lemma selection_bounds:
  assumes "results \<noteq> []" and "1 \<le> k"
  shows "1 \<le> length (take (nat k) (if \<exists>r\<in>set results. P r then filter P results else results))"
    and "int (length (take (nat k) (if \<exists>r\<in>set results. P r then filter P results
                                     else results))) \<le> k"
proof -
  let ?sel = "if \<exists>r\<in>set results. P r then filter P results else results"
  have "?sel \<noteq> []" using assms(1) by (auto simp: filter_empty_conv)
  then show "1 \<le> length (take (nat k) ?sel)" using assms(2)
    by (cases ?sel) (auto simp: Suc_le_eq)
  show "int (length (take (nat k) ?sel)) \<le> k" using assms(2) by simp
qed

text \<open>
  Claim C6. \<open>search_similar_content\<close> returns the empty list when the vector store is
  not initialised, when the query raises and when the query yields no candidate. When the
  query yields candidates and \<open>k\<close> is at least 1, it returns between 1 and \<open>k\<close>
  results: the first \<open>k\<close> of the candidates whose text, in lower case, has a variant of
  the section name as a substring, or the first \<open>k\<close> of all candidates when no candidate
  has one. The variants are the section name in lower case, the alternatives of every
  entry of the mapping that the name matches, and the name without digits and punctuation.
\<close>

theorem retrieval_cardinality:
  "(let variants = get_section_variants str name;
        keeps = (\<lambda>r. \<exists>v\<in>set variants. occurs_in v (lower_of str (page_content (fst r))));
        out = search_similar_content str stem (Some db) query name k
    in search_similar_content str stem None query name k = []
       \<and> (db (combined_query name query) (k * 3) = Inl e \<longrightarrow> out = [])
       \<and> (db (combined_query name query) (k * 3) = Inr [] \<longrightarrow> out = [])
       \<and> (db (combined_query name query) (k * 3) = Inr results \<and> results \<noteq> [] \<and> 1 \<le> k \<longrightarrow>
            1 \<le> length out \<and> int (length out) \<le> k
            \<and> out = map (format_result stem)
                       (take (nat k)
                          (if \<exists>r\<in>set results. keeps r then filter keeps results
                           else results)))
       \<and> lower_of str name \<in> set variants
       \<and> set variants =
            insert (lower_of str name) (matching_alternatives (lower_of str name))
              \<union> (let clean_name =
                         strip (filter (\<lambda>c. \<not> isdigit_of str c \<and> c \<noteq> 46 \<and> c \<noteq> 45 \<and> c \<noteq> 58)
                                  (lower_of str name))
                   in if clean_name \<noteq> [] then {clean_name} else {}))"
proof -
  let ?vs = "get_section_variants str name"
  let ?keeps = "\<lambda>r :: document \<times> 'a.
      \<exists>v\<in>set ?vs. occurs_in v (lower_of str (page_content (fst r)))"
  let ?out = "search_similar_content str stem (Some db) query name k"
  let ?sel = "take (nat k) (if \<exists>r\<in>set results. ?keeps r then filter ?keeps results
                            else results)"
  have keeps: "mentions_section str ?vs = ?keeps"
    by (rule ext) (rule mentions_section_iff)
  have a: "search_similar_content str stem None query name k = []"
    by (simp add: search_similar_content_def)
  have b: "db (combined_query name query) (k * 3) = Inl e \<Longrightarrow> ?out = []"
    by (simp add: search_similar_content_def)
  have c: "db (combined_query name query) (k * 3) = Inr [] \<Longrightarrow> ?out = []"
    by (simp add: search_similar_content_def py_take_def)
  have d: "?out = map (format_result stem) ?sel"
    if "db (combined_query name query) (k * 3) = Inr results" "results \<noteq> []" "1 \<le> k"
    using search_selects [where db = db and name = name and query = query and k = k
        and results = results and str = str and stem = stem, OF that]
    unfolding keeps .
  have l: "1 \<le> length ?sel" "int (length ?sel) \<le> k" if "results \<noteq> []" "1 \<le> k"
    using selection_bounds [OF that, of ?keeps] by blast+
  have s: "set ?vs =
      insert (lower_of str name) (matching_alternatives (lower_of str name))
        \<union> (let clean_name =
                   strip (filter (\<lambda>c. \<not> isdigit_of str c \<and> c \<noteq> 46 \<and> c \<noteq> 45 \<and> c \<noteq> 58)
                            (lower_of str name))
             in if clean_name \<noteq> [] then {clean_name} else {})"
    by (rule get_section_variants_set)
  then have m: "lower_of str name \<in> set ?vs" by simp
  show ?thesis
    unfolding Let_def
  proof (intro conjI impI, goal_cases)
    case 1
    show ?case by (rule a)
  next
    case 2
    then show ?case by (rule b)
  next
    case 3
    then show ?case by (rule c)
  next
    case 4
    then have "?out = map (format_result stem) ?sel" "1 \<le> length ?sel"
      using d l by blast+
    then show ?case by simp
  next
    case 5
    then have "?out = map (format_result stem) ?sel" "int (length ?sel) \<le> k"
      using d l by blast+
    then show ?case by simp
  next
    case 6
    then show ?case using d by blast
  next
    case 7
    show ?case by (rule m)
  next
    case 8
    show ?case using s unfolding Let_def .
  qed
qed

lemma lower_alcance: "py_lower (of_str ''Alcance'') = of_str ''alcance''"
  by (simp add: py_lower_def of_str_def lower_char_def)

lemma alcance_variants:
  "get_section_variants latin1 (of_str ''Alcance'') =
     [of_str ''alcance'', of_str ''3.'', of_str ''iii.'', of_str ''3 alcance'',
      of_str ''3. alcance'', of_str ''alcance del trabajo'', of_str ''alcance del proyecto'']"
  unfolding get_section_variants_def latin1_def
  by (simp add: lower_alcance Let_def)
     (simp add: section_mappings_def of_str_def str_isdigit_def isdigit_small strip_def
        lstrip_def rstrip_def isspace_def)

lemma alcance_candidates:
  "\<not> (\<exists>v\<in>set (get_section_variants latin1 (of_str ''Alcance'')).
        occurs_in v (lower_of latin1 (page_content (fst (other_document, 0::int)))))"
  "\<exists>v\<in>set (get_section_variants latin1 (of_str ''Alcance'')).
        occurs_in v (lower_of latin1 (page_content (fst (demo_document, 1::int))))"
  "\<exists>v\<in>set (get_section_variants latin1 (of_str ''Alcance'')).
        occurs_in v (lower_of latin1 (page_content (fst (third_document, 2::int))))"
  unfolding alcance_variants
  by (simp_all add: contains_iff [symmetric] latin1_def other_document_def
        demo_document_def third_document_def py_lower_def of_str_def lower_char_def)

theorem retrieval_cardinality_witness:
  "get_section_variants latin1 (of_str ''Alcance'') =
     [of_str ''alcance'', of_str ''3.'', of_str ''iii.'', of_str ''3 alcance'',
      of_str ''3. alcance'', of_str ''alcance del trabajo'', of_str ''alcance del proyecto'']
   \<and> search_similar_content latin1 id None [] (of_str ''Alcance'') 1
     = ([] :: int retrieval_result list)
   \<and> search_similar_content latin1 id (Some demo_db) [] (of_str ''Alcance'') 1
       = [format_result id (demo_document, 1)]
   \<and> search_similar_content latin1 id (Some fallback_db) [] (of_str ''Alcance'') 1
       = [format_result id (other_document, 0)]"
proof -
  define keeps :: "document \<times> int \<Rightarrow> bool" where
    "keeps = (\<lambda>r. \<exists>v\<in>set (get_section_variants latin1 (of_str ''Alcance'')).
        occurs_in v (lower_of latin1 (page_content (fst r))))"
  have k: "\<not> keeps (other_document, 0)" "keeps (demo_document, 1)" "keeps (third_document, 2)"
    unfolding keeps_def using alcance_candidates by blast+
  have q1: "demo_db (combined_query (of_str ''Alcance'') []) (1 * 3)
      = Inr [(other_document, 0), (demo_document, 1), (third_document, 2)]"
    by (simp add: demo_db_def)
  have q2: "fallback_db (combined_query (of_str ''Alcance'') []) (1 * 3)
      = Inr [(other_document, 0)]"
    by (simp add: fallback_db_def)
  note t1 = retrieval_cardinality [where str = latin1 and name = "of_str ''Alcance''"
      and stem = id and db = demo_db and query = "[]" and k = 1
      and results = "[(other_document, 0), (demo_document, 1), (third_document, 2)]",
      unfolded Let_def, folded keeps_def]
  note t2 = retrieval_cardinality [where str = latin1 and name = "of_str ''Alcance''"
      and stem = id and db = fallback_db and query = "[]" and k = 1
      and results = "[(other_document, 0)]", unfolded Let_def, folded keeps_def]
  from t1 have a: "search_similar_content latin1 id None [] (of_str ''Alcance'') 1
      = ([] :: int retrieval_result list)"
    by blast
  from t1 q1 have "search_similar_content latin1 id (Some demo_db) [] (of_str ''Alcance'') 1
      = map (format_result id)
          (take (nat 1)
             (if \<exists>r\<in>set [(other_document, 0), (demo_document, 1), (third_document, 2)]. keeps r
              then filter keeps [(other_document, 0), (demo_document, 1), (third_document, 2)]
              else [(other_document, 0), (demo_document, 1), (third_document, 2)]))"
    by blast
  then have b: "search_similar_content latin1 id (Some demo_db) [] (of_str ''Alcance'') 1
      = [format_result id (demo_document, 1)]"
    using k by simp
  from t2 q2 have "search_similar_content latin1 id (Some fallback_db) [] (of_str ''Alcance'') 1
      = map (format_result id)
          (take (nat 1)
             (if \<exists>r\<in>set [(other_document, 0)]. keeps r
              then filter keeps [(other_document, 0)]
              else [(other_document, 0)]))"
    by blast
  then have c: "search_similar_content latin1 id (Some fallback_db) [] (of_str ''Alcance'') 1
      = [format_result id (other_document, 0)]"
    using k by simp
  show ?thesis using a b c alcance_variants by blast
qed
section \<open>Project metadata: keys and defaults\<close>

lemma dict_set_keys:
  "k \<in> set ks \<Longrightarrow> map fst d = ks \<Longrightarrow> map fst (dict_set d k v) = ks"
proof (induction d arbitrary: ks)
  case Nil
  then show ?case by simp
next
  case (Cons p d)
  obtain k' v' where p: "p = (k', v')" by (cases p)
  show ?case
  proof (cases "k' = k")
    case True
    then show ?thesis using Cons.prems p by auto
  next
    case False
    then have "k \<in> set (map fst d)" using Cons.prems p by auto
    from Cons.IH [OF this refl] show ?thesis using Cons.prems p False by auto
  qed
qed

lemma set_if_present_keys:
  "set_if_present k v m = Some m' \<Longrightarrow> k \<in> set ks \<Longrightarrow> map fst m = ks \<Longrightarrow> map fst m' = ks"
  unfolding set_if_present_def
  by (auto split: option.splits bool.splits intro!: dict_set_keys)

lemma set_if_specified_keys:
  "set_if_specified k v m = Some m' \<Longrightarrow> k \<in> set ks \<Longrightarrow> map fst m = ks \<Longrightarrow> map fst m' = ks"
  unfolding set_if_specified_def
  by (auto split: option.splits bool.splits if_splits intro!: dict_set_keys)

lemma find_date_keys:
  "find_date fs v m = Some m' \<Longrightarrow> k_fecha \<in> set ks \<Longrightarrow> map fst m = ks \<Longrightarrow> map fst m' = ks"
  by (induction fs) (auto split: option.splits bool.splits if_splits intro!: dict_set_keys)

lemma set_from_search_keys:
  "k \<in> set ks \<Longrightarrow> map fst m = ks \<Longrightarrow> map fst (set_from_search k g m) = ks"
  unfolding set_from_search_def
  by (auto split: option.splits intro!: dict_set_keys)

lemma keys_member:
  "k_titulo \<in> set metadata_keys" "k_cliente \<in> set metadata_keys" "k_fecha \<in> set metadata_keys"
  by (simp_all add: metadata_keys_def)

lemma keys_distinct:
  "k_titulo \<noteq> k_cliente" "k_titulo \<noteq> k_fecha" "k_cliente \<noteq> k_fecha"
  "k_cliente \<noteq> k_titulo" "k_fecha \<noteq> k_titulo" "k_fecha \<noteq> k_cliente"
  by (simp_all add: k_titulo_def k_cliente_def k_fecha_def of_str_def)

lemma dict_get_Cons:
  "dict_get ((k, v) # d) k' = (if k' = k then Some v else dict_get d k')"
  by (simp add: dict_get_def)

lemma search2_keys:
  assumes "map fst m = metadata_keys"
  shows "map fst (set_from_search k_cliente g2 (set_from_search k_titulo g1 m)) = metadata_keys"
  by (rule set_from_search_keys [OF keys_member(2)])
     (rule set_from_search_keys [OF keys_member(1) assms])

lemma search3_keys:
  assumes "map fst m = metadata_keys"
  shows "map fst (set_from_search k_fecha g3
           (set_from_search k_cliente g2 (set_from_search k_titulo g1 m))) = metadata_keys"
  by (rule set_from_search_keys [OF keys_member(3)]) (rule search2_keys [OF assms])

lemma extract_keys: "map fst (extract_project_metadata loads rx t) = metadata_keys"
proof -
  let ?m0 = "[(k_titulo, default_titulo), (k_cliente, default_cliente), (k_fecha, default_fecha)]"
  have k0: "map fst ?m0 = metadata_keys" by (simp add: metadata_keys_def)
  show ?thesis
  proof (cases "loads t")
    case None
    then show ?thesis
      unfolding extract_project_metadata_def Let_def
      by (simp add: search3_keys [OF k0])
  next
    case (Some v)
    note l = this
    show ?thesis
    proof (cases "set_if_present k_titulo v ?m0")
      case None
      then show ?thesis using l k0 by (simp add: extract_project_metadata_def Let_def)
    next
      case (Some m1)
      note s1 = this
      have k1: "map fst m1 = metadata_keys"
        using set_if_present_keys [OF s1 keys_member(1) k0] .
      show ?thesis
      proof (cases "set_if_present k_cliente v m1")
        case None
        then show ?thesis using l s1 k1 by (simp add: extract_project_metadata_def Let_def)
      next
        case (Some m2)
        note s2 = this
        have k2: "map fst m2 = metadata_keys"
          using set_if_present_keys [OF s2 keys_member(2) k1] .
        show ?thesis
        proof (cases "find_date date_fields v m2")
          case None
          then show ?thesis using l s1 s2 k2 by (simp add: extract_project_metadata_def Let_def)
        next
          case (Some m3)
          have "map fst m3 = metadata_keys"
            using find_date_keys [OF Some keys_member(3) k2] .
          then show ?thesis using l s1 s2 Some
            by (simp add: extract_project_metadata_def Let_def)
        qed
      qed
    qed
  qed
qed

lemma combine_extract_keys:
  "map fst (combine_extract_project_metadata today loads rx st) = metadata_keys"
proof -
  let ?m0 = "[(k_titulo, default_titulo), (k_cliente, default_cliente), (k_fecha, JStr today)]"
  let ?info = "case tdr_info st of None \<Rightarrow> [] | Some t \<Rightarrow> t"
  have k0: "map fst ?m0 = metadata_keys" by (simp add: metadata_keys_def)
  show ?thesis
  proof (cases "loads ?info")
    case None
    then show ?thesis
      unfolding combine_extract_project_metadata_def Let_def
      using k0 by (cases "get_sections st") (simp_all add: search2_keys [OF k0])
  next
    case (Some v)
    note l = this
    show ?thesis
    proof (cases "set_if_specified k_titulo v ?m0")
      case None
      then show ?thesis using l k0 by (simp add: combine_extract_project_metadata_def Let_def)
    next
      case (Some m1)
      note s1 = this
      have k1: "map fst m1 = metadata_keys"
        using set_if_specified_keys [OF s1 keys_member(1) k0] .
      show ?thesis
      proof (cases "set_if_specified k_cliente v m1")
        case None
        then show ?thesis using l s1 k1
          by (simp add: combine_extract_project_metadata_def Let_def)
      next
        case (Some m2)
        note s2 = this
        have k2: "map fst m2 = metadata_keys"
          using set_if_specified_keys [OF s2 keys_member(2) k1] .
        show ?thesis
        proof (cases "find_date date_fields v m2")
          case None
          then show ?thesis using l s1 s2 k2
            by (simp add: combine_extract_project_metadata_def Let_def)
        next
          case (Some m3)
          have "map fst m3 = metadata_keys"
            using find_date_keys [OF Some keys_member(3) k2] .
          then show ?thesis using l s1 s2 Some
            by (simp add: combine_extract_project_metadata_def Let_def)
        qed
      qed
    qed
  qed
qed

lemma dict_get_dict_set:
  "dict_get (dict_set d k v) k' = (if k' = k then Some v else dict_get d k')"
  by (induction d) (auto simp: dict_get_def)

lemma set_from_search_other:
  "k' \<noteq> k \<Longrightarrow> dict_get (set_from_search k g m) k' = dict_get m k'"
  by (cases g) (simp_all add: set_from_search_def dict_get_dict_set)

lemma set_from_search_None: "set_from_search k None m = m"
  by (simp add: set_from_search_def)

lemma set_if_present_obj:
  "set_if_present k (JObj d) m =
     Some (case dict_get d k of None \<Rightarrow> m | Some v \<Rightarrow> dict_set m k v)"
proof (cases "dict_get d k")
  case None
  then have "k \<notin> fst ` set d" by (simp add: dict_get_def map_of_eq_None_iff)
  then show ?thesis using None by (simp add: set_if_present_def py_in_def)
next
  case (Some v)
  then have "k \<in> fst ` set d" by (metis dict_get_def map_of_eq_None_iff option.distinct(1))
  then show ?thesis using Some by (simp add: set_if_present_def py_in_def py_getitem_def)
qed

lemma find_date_obj:
  "\<exists>m'. find_date fs (JObj d) m = Some m'
      \<and> (\<forall>k. k \<noteq> k_fecha \<longrightarrow> dict_get m' k = dict_get m k)
      \<and> (set fs \<inter> fst ` set d = {} \<longrightarrow> m' = m)"
proof (induction fs)
  case Nil
  then show ?case by simp
next
  case (Cons f fs)
  show ?case
  proof (cases "dict_get d f")
    case None
    then have "f \<notin> fst ` set d" by (simp add: dict_get_def map_of_eq_None_iff)
    then show ?thesis using Cons by (simp add: py_in_def)
  next
    case (Some v)
    then have "f \<in> fst ` set d" by (metis dict_get_def map_of_eq_None_iff option.distinct(1))
    then show ?thesis using Cons Some
      by (auto simp: py_in_def py_getitem_def dict_get_dict_set)
  qed
qed

lemma set_if_present_not_obj:
  "\<forall>d. v \<noteq> JObj d \<Longrightarrow> set_if_present k v m = None \<or> set_if_present k v m = Some m"
  by (cases v) (auto simp: set_if_present_def py_in_def py_getitem_def split: bool.splits)

lemma find_date_not_obj:
  "\<forall>d. v \<noteq> JObj d \<Longrightarrow> find_date fs v m = None \<or> find_date fs v m = Some m"
  by (induction fs; cases v) (auto simp: py_in_def py_getitem_def split: bool.splits)

lemma extract_not_obj:
  assumes "loads t = Some v" "\<forall>d. v \<noteq> JObj d"
  shows "extract_project_metadata loads rx t =
     [(k_titulo, default_titulo), (k_cliente, default_cliente), (k_fecha, default_fecha)]"
proof -
  let ?m0 = "[(k_titulo, default_titulo), (k_cliente, default_cliente), (k_fecha, default_fecha)]"
  note a = set_if_present_not_obj [OF assms(2), of k_titulo ?m0]
  note b = set_if_present_not_obj [OF assms(2), of k_cliente ?m0]
  note c = find_date_not_obj [OF assms(2), of date_fields ?m0]
  show ?thesis using assms(1) a b c
    by (auto simp: extract_project_metadata_def Let_def split: option.splits)
qed

lemma absent_key: "k \<notin> set (map fst d) \<Longrightarrow> dict_get d k = None"
  by (simp add: dict_get_def map_of_eq_None_iff)

lemma extract_obj:
  assumes l: "loads t = Some (JObj d)"
  shows "(k_titulo \<notin> set (map fst d) \<longrightarrow>
            dict_get (extract_project_metadata loads rx t) k_titulo = Some default_titulo)
       \<and> (k_cliente \<notin> set (map fst d) \<longrightarrow>
            dict_get (extract_project_metadata loads rx t) k_cliente = Some default_cliente)
       \<and> (set date_fields \<inter> set (map fst d) = {} \<longrightarrow>
            dict_get (extract_project_metadata loads rx t) k_fecha = Some default_fecha)"
proof -
  let ?m0 = "[(k_titulo, default_titulo), (k_cliente, default_cliente), (k_fecha, default_fecha)]"
  define m1 where "m1 = (case dict_get d k_titulo of None \<Rightarrow> ?m0 | Some v \<Rightarrow> dict_set ?m0 k_titulo v)"
  define m2 where "m2 = (case dict_get d k_cliente of None \<Rightarrow> m1 | Some v \<Rightarrow> dict_set m1 k_cliente v)"
  obtain m3 where m3: "find_date date_fields (JObj d) m2 = Some m3"
    and other: "\<And>k. k \<noteq> k_fecha \<Longrightarrow> dict_get m3 k = dict_get m2 k"
    and same: "set date_fields \<inter> fst ` set d = {} \<Longrightarrow> m3 = m2"
    using find_date_obj [of date_fields d m2] by blast
  have res: "extract_project_metadata loads rx t = m3"
    using l m3 [unfolded m2_def m1_def]
    by (simp add: extract_project_metadata_def Let_def set_if_present_obj)
  have g0: "dict_get ?m0 k_titulo = Some default_titulo"
    "dict_get ?m0 k_cliente = Some default_cliente" "dict_get ?m0 k_fecha = Some default_fecha"
    by (simp_all add: dict_get_Cons keys_distinct)
  have t1: "dict_get m2 k_titulo = dict_get m1 k_titulo"
    by (simp add: m2_def dict_get_dict_set dict_get_Cons keys_distinct split: option.splits)
  have c1: "dict_get m1 k_cliente = Some default_cliente"
    by (simp add: m1_def dict_get_dict_set dict_get_Cons g0 keys_distinct split: option.splits)
  have f1: "dict_get m1 k_fecha = Some default_fecha"
    by (simp add: m1_def dict_get_dict_set dict_get_Cons g0 keys_distinct split: option.splits)
  have f2: "dict_get m2 k_fecha = Some default_fecha"
    by (simp add: m2_def dict_get_dict_set dict_get_Cons f1 keys_distinct split: option.splits)
  have a: "dict_get m3 k_titulo = Some default_titulo" if "k_titulo \<notin> set (map fst d)"
    using other [of k_titulo] t1 absent_key [OF that] g0 by (simp add: m1_def keys_distinct)
  have b: "dict_get m3 k_cliente = Some default_cliente" if "k_cliente \<notin> set (map fst d)"
    using other [of k_cliente] c1 absent_key [OF that] by (simp add: m2_def keys_distinct)
  have c: "dict_get m3 k_fecha = Some default_fecha" if "set date_fields \<inter> set (map fst d) = {}"
    using same that f2 by simp
  show ?thesis using a b c res by simp
qed

lemma extract_text:
  assumes l: "loads t = None"
  shows "(title_search rx t = None \<longrightarrow>
            dict_get (extract_project_metadata loads rx t) k_titulo = Some default_titulo)
       \<and> (client_search rx t = None \<longrightarrow>
            dict_get (extract_project_metadata loads rx t) k_cliente = Some default_cliente)
       \<and> (date_search rx t = None \<longrightarrow>
            dict_get (extract_project_metadata loads rx t) k_fecha = Some default_fecha)"
  using l
  by (simp add: extract_project_metadata_def Let_def set_from_search_other
        set_from_search_None dict_get_Cons keys_distinct)

lemma combine_text_fecha:
  assumes "loads (case tdr_info st of None \<Rightarrow> [] | Some t \<Rightarrow> t) = None"
  shows "dict_get (combine_extract_project_metadata today loads rx st) k_fecha = Some (JStr today)"
  using assms
  by (cases "get_sections st")
     (simp_all add: combine_extract_project_metadata_def Let_def set_from_search_other
        dict_get_Cons keys_distinct)

text \<open>
  Claim C10. The metadata extraction is a total function: every exception of the source is a
  branch of the model and ends in the metadata collected so far. Both variants return a
  dictionary with exactly the keys \<^verbatim>\<open>titulo_proyecto\<close>, \<^verbatim>\<open>cliente\<close>, \<^verbatim>\<open>fecha\<close>, in this order.
  For the variant of nodes/section\_node.py a field keeps its default text when the
  requirement is free text and the search of the field finds nothing, when the requirement
  parses to an object that lacks the key of the field (for the date: all four date keys), and
  all three fields keep it when the requirement parses to a value that is not an object. The
  variant of nodes/combine\_node.py has the same keys, and its date for a free-text
  requirement is the current date.
\<close>

theorem metadata_keys_and_defaults:
  "map fst (extract_project_metadata loads rx t) = metadata_keys
   \<and> (loads t = None \<and> title_search rx t = None \<longrightarrow>
        dict_get (extract_project_metadata loads rx t) k_titulo = Some default_titulo)
   \<and> (loads t = None \<and> client_search rx t = None \<longrightarrow>
        dict_get (extract_project_metadata loads rx t) k_cliente = Some default_cliente)
   \<and> (loads t = None \<and> date_search rx t = None \<longrightarrow>
        dict_get (extract_project_metadata loads rx t) k_fecha = Some default_fecha)
   \<and> (loads t = Some (JObj d) \<and> k_titulo \<notin> set (map fst d) \<longrightarrow>
        dict_get (extract_project_metadata loads rx t) k_titulo = Some default_titulo)
   \<and> (loads t = Some (JObj d) \<and> k_cliente \<notin> set (map fst d) \<longrightarrow>
        dict_get (extract_project_metadata loads rx t) k_cliente = Some default_cliente)
   \<and> (loads t = Some (JObj d) \<and> set date_fields \<inter> set (map fst d) = {} \<longrightarrow>
        dict_get (extract_project_metadata loads rx t) k_fecha = Some default_fecha)
   \<and> (loads t = Some v \<and> (\<forall>d. v \<noteq> JObj d) \<longrightarrow>
        extract_project_metadata loads rx t =
          [(k_titulo, default_titulo), (k_cliente, default_cliente), (k_fecha, default_fecha)])
   \<and> map fst (combine_extract_project_metadata today loads rx st) = metadata_keys
   \<and> (loads (case tdr_info st of None \<Rightarrow> [] | Some t \<Rightarrow> t) = None \<longrightarrow>
        dict_get (combine_extract_project_metadata today loads rx st) k_fecha
          = Some (JStr today))"
  using extract_keys [of loads rx t] extract_text [of loads t rx] extract_obj [of loads t d rx]
    extract_not_obj [of loads t v rx] combine_extract_keys [of today loads rx st]
    combine_text_fecha [of loads st today rx]
  by blast

theorem metadata_keys_and_defaults_witness:
  "map fst (extract_project_metadata not_json no_match (of_str ''TDR'')) = metadata_keys
   \<and> dict_get (extract_project_metadata not_json no_match (of_str ''TDR'')) k_fecha
       = Some default_fecha"
proof -
  have a: "not_json (of_str ''TDR'') = None" by (simp add: not_json_def)
  have b: "date_search no_match (of_str ''TDR'') = None" by (simp add: no_match_def)
  from metadata_keys_and_defaults [of not_json no_match "of_str ''TDR''"] a b
  show ?thesis by blast
qed

text \<open>
  Claim C10, counterexample. In nodes/combine\_node.py the date that cannot be extracted is
  the current date, not the text \<^verbatim>\<open>No Especificada\<close>.
\<close>

theorem combine_default_date:
  "dict_get (combine_extract_project_metadata today_example not_json no_match demo_state) k_fecha
     = Some (JStr today_example)
   \<and> JStr today_example \<noteq> default_fecha"
proof -
  have "not_json (case tdr_info demo_state of None \<Rightarrow> [] | Some t \<Rightarrow> t) = None"
    by (simp add: not_json_def)
  then have "dict_get (combine_extract_project_metadata today_example not_json no_match
      demo_state) k_fecha = Some (JStr today_example)"
    by (rule combine_text_fecha)
  moreover have "JStr today_example \<noteq> default_fecha"
    by (simp add: today_example_def default_fecha_def of_str_def)
  ultimately show ?thesis by blast
qed
section \<open>The cleaning passes applied twice\<close>

lemma isspace_nl: "isspace 10"
  by (simp add: isspace_def)

lemma newlines_ahead_Nil: "newlines_ahead [] = 0"
  by (simp add: newlines_ahead_def)

lemma newlines_ahead_Cons:
  "newlines_ahead (c # s) =
     (if isspace c then (if c = 10 then Suc (newlines_ahead s) else newlines_ahead s) else 0)"
  by (simp add: newlines_ahead_def)

lemma first_some_append:
  "first_some f (xs @ ys) = (case first_some f xs of Some y \<Rightarrow> Some y | None \<Rightarrow> first_some f ys)"
  by (induction xs) (auto split: option.splits)

lemma first_some_map: "first_some f (map g xs) = first_some (\<lambda>x. f (g x)) xs"
  by (induction xs) (auto split: option.splits)

lemma first_some_cong:
  "(\<And>x. x \<in> set xs \<Longrightarrow> f x = g x) \<Longrightarrow> first_some f xs = first_some g xs"
  by (induction xs) (auto split: option.splits)

lemma rev_upt_Suc: "rev [0..<Suc (Suc n)] = map Suc (rev [0..<Suc n]) @ [0]"
proof -
  have "[0..<Suc (Suc n)] = 0 # map Suc [0..<Suc n]"
    by (simp only: map_Suc_upt) (simp add: upt_conv_Cons del: upt_Suc)
  then show ?thesis by (simp only: rev.simps rev_map)
qed

lemma star_Nil: "rx_match (Rep True p 0 # rs) prev [] gs cap = rx_match rs prev [] gs cap"
  by (simp add: prev_after_def split: option.splits)

lemma star_Cons:
  "rx_match (Rep True p 0 # rs) prev (c # s) gs cap =
     (if p c
      then (case rx_match (Rep True p 0 # rs) (Some c) s gs cap of
              Some y \<Rightarrow> Some y
            | None \<Rightarrow> rx_match rs prev (c # s) gs cap)
      else rx_match rs prev (c # s) gs cap)"
proof (cases "p c")
  case True
  let ?n = "length (takeWhile p s)"
  let ?F = "\<lambda>k. rx_match rs (prev_after prev (c # s) k) (drop k (c # s)) gs cap"
  let ?G = "\<lambda>k. rx_match rs (prev_after (Some c) s k) (drop k s) gs cap"
  have n: "?n \<le> length s" by (rule length_takeWhile_le)
  have "rx_match (Rep True p 0 # rs) prev (c # s) gs cap = first_some ?F (rev [0..<Suc (Suc ?n)])"
    using True by (simp del: upt_Suc)
  also have "\<dots> = (case first_some (\<lambda>k. ?F (Suc k)) (rev [0..<Suc ?n]) of
        Some y \<Rightarrow> Some y | None \<Rightarrow> ?F 0)"
    by (simp only: rev_upt_Suc first_some_append first_some_map first_some.simps)
       (simp split: option.splits)
  also have "first_some (\<lambda>k. ?F (Suc k)) (rev [0..<Suc ?n]) = first_some ?G (rev [0..<Suc ?n])"
  proof (rule first_some_cong)
    fix k assume "k \<in> set (rev [0..<Suc ?n])"
    then have "k \<le> length s" using n by auto
    then show "?F (Suc k) = ?G k"
      by (cases k) (auto simp: prev_after_def)
  qed
  also have "first_some ?G (rev [0..<Suc ?n]) = rx_match (Rep True p 0 # rs) (Some c) s gs cap"
    by (simp del: upt_Suc)
  finally show ?thesis using True
    by (simp add: prev_after_def del: rx_match.simps split: option.splits)
next
  case False
  then show ?thesis by (simp add: prev_after_def split: option.splits)
qed

lemma Ch_Nil: "rx_match (Ch p # rs) prev [] gs cap = None"
  by simp

lemma Ch_Cons:
  "rx_match (Ch p # rs) prev (c # s) gs cap = (if p c then rx_match rs (Some c) s gs cap else None)"
  by simp

lemma plus_last:
  "rx_match [Rep True p (Suc 0)] prev s gs cap =
     (if s \<noteq> [] \<and> p (hd s)
      then Some (prev_after prev s (length (takeWhile p s)), dropWhile p s, cap)
      else None)"
proof (cases "s \<noteq> [] \<and> p (hd s)")
  case True
  then obtain c s' where s: "s = c # s'" and c: "p c" by (cases s) auto
  have "[Suc 0..<Suc (Suc (length (takeWhile p s')))] =
      [Suc 0..<Suc (length (takeWhile p s'))] @ [Suc (length (takeWhile p s'))]"
    by simp
  then show ?thesis using s c
    by (simp add: dropWhile_eq_drop del: upt_Suc)
next
  case False
  then have "takeWhile p s = []" by (cases s) auto
  then show ?thesis using False by simp
qed

lemma newlines_ahead_dropWhile:
  "newlines_ahead (dropWhile (is_char 10) s) \<le> newlines_ahead s"
  by (induction s) (auto simp: newlines_ahead_Cons is_char_def isspace_nl)

lemma tail_None:
  "rx_match [Rep True isspace 0, Rep True (is_char 10) (Suc 0)] prev s gs cap = None
     \<longleftrightarrow> newlines_ahead s = 0"
proof (induction s arbitrary: prev)
  case Nil
  show ?case by (simp only: star_Nil plus_last) (simp add: newlines_ahead_Nil)
next
  case (Cons c s)
  let ?D = "\<lambda>prev s. rx_match [Rep True isspace 0, Rep True (is_char 10) (Suc 0)] prev s gs cap"
  have e: "rx_match [Rep True (is_char 10) (Suc 0)] prev (c # s) gs cap = None \<longleftrightarrow> c \<noteq> 10"
    by (simp only: plus_last) (simp add: is_char_def)
  show ?case
  proof (cases "isspace c")
    case True
    have "?D prev (c # s) = None \<longleftrightarrow> ?D (Some c) s = None \<and> c \<noteq> 10"
      using True e by (simp only: star_Cons) (simp del: rx_match.simps split: option.splits)
    then show ?thesis using True by (simp only: Cons.IH) (simp add: newlines_ahead_Cons)
  next
    case False
    then have "c \<noteq> 10" using isspace_nl by auto
    then have "?D prev (c # s) = None"
      using False e by (simp only: star_Cons) (simp del: rx_match.simps)
    then show ?thesis using False by (simp only: newlines_ahead_Cons) simp
  qed
qed

lemma tail_Some:
  "rx_match [Rep True isspace 0, Rep True (is_char 10) (Suc 0)] prev s gs cap = Some (p', r, c')
     \<Longrightarrow> newlines_ahead r = 0 \<and> (\<exists>m. s = m @ r)"
proof (induction s arbitrary: prev)
  case Nil
  then show ?case by (simp only: star_Nil plus_last) simp
next
  case (Cons c s)
  show ?case
  proof (cases "isspace c")
    case True
    show ?thesis
    proof (cases "rx_match [Rep True isspace 0, Rep True (is_char 10) (Suc 0)] (Some c) s gs cap")
      case None
      then have z: "newlines_ahead s = 0" by (simp only: tail_None)
      from Cons.prems True None
      have e: "rx_match [Rep True (is_char 10) (Suc 0)] prev (c # s) gs cap = Some (p', r, c')"
        by (simp only: star_Cons) simp
      then have r: "r = dropWhile (is_char 10) (c # s)" and c: "c = 10"
        by (simp_all only: plus_last split: if_splits) (simp_all add: is_char_def)
      have "newlines_ahead r \<le> newlines_ahead s"
        using r c newlines_ahead_dropWhile [of s] by (simp add: is_char_def)
      moreover have "c # s = takeWhile (is_char 10) (c # s) @ r"
        unfolding r by (rule takeWhile_dropWhile_id [symmetric])
      ultimately show ?thesis using z by (metis le_zero_eq)
    next
      case (Some y)
      with Cons.prems True
      have "rx_match [Rep True isspace 0, Rep True (is_char 10) (Suc 0)] (Some c) s gs cap
          = Some (p', r, c')"
        by (simp only: star_Cons) simp
      from Cons.IH [OF this] obtain m where "newlines_ahead r = 0" "s = m @ r" by blast
      then have "c # s = (c # m) @ r" by simp
      then show ?thesis using \<open>newlines_ahead r = 0\<close> by blast
    qed
  next
    case False
    with Cons.prems
    have "rx_match [Rep True (is_char 10) (Suc 0)] prev (c # s) gs cap = Some (p', r, c')"
      by (simp only: star_Cons) simp
    then have "c = 10"
      by (simp only: plus_last split: if_splits) (simp_all add: is_char_def)
    then show ?thesis using False isspace_nl by simp
  qed
qed

lemma mid_None:
  "rx_match [Rep True isspace 0, Ch (is_char 10), Rep True isspace 0, Rep True (is_char 10) (Suc 0)]
      prev s gs cap = None
     \<longleftrightarrow> newlines_ahead s \<le> 1"
proof (induction s arbitrary: prev)
  case Nil
  show ?case by (simp only: star_Nil Ch_Nil) (simp add: newlines_ahead_Nil)
next
  case (Cons c s)
  let ?B = "\<lambda>prev s. rx_match [Rep True isspace 0, Ch (is_char 10), Rep True isspace 0,
      Rep True (is_char 10) (Suc 0)] prev s gs cap"
  have e: "rx_match [Ch (is_char 10), Rep True isspace 0, Rep True (is_char 10) (Suc 0)]
      prev (c # s) gs cap = None \<longleftrightarrow> c \<noteq> 10 \<or> newlines_ahead s = 0"
    by (simp only: Ch_Cons) (simp add: is_char_def tail_None del: rx_match.simps)
  show ?case
  proof (cases "isspace c")
    case True
    have "?B prev (c # s) = None \<longleftrightarrow> ?B (Some c) s = None \<and> (c \<noteq> 10 \<or> newlines_ahead s = 0)"
      using True e by (simp only: star_Cons) (simp del: rx_match.simps split: option.splits)
    then show ?thesis using True by (simp only: Cons.IH) (auto simp: newlines_ahead_Cons)
  next
    case False
    then have "c \<noteq> 10" using isspace_nl by auto
    then have "?B prev (c # s) = None"
      using False e by (simp only: star_Cons) (simp del: rx_match.simps)
    then show ?thesis using False by (simp only: newlines_ahead_Cons) simp
  qed
qed

lemma star_Some:
  "rx_match (Rep True p 0 # rs) prev s gs cap = Some y
     \<Longrightarrow> \<exists>prev' m t. s = m @ t \<and> rx_match rs prev' t gs cap = Some y"
proof (induction s arbitrary: prev)
  case Nil
  then show ?case by (simp only: star_Nil) blast
next
  case (Cons c s)
  have here: "\<exists>prev' m t. c # s = m @ t \<and> rx_match rs prev' t gs cap = Some y"
    if "rx_match rs prev (c # s) gs cap = Some y"
  proof -
    have "c # s = [] @ (c # s)" by simp
    with that show ?thesis by blast
  qed
  show ?case
  proof (cases "p c")
    case True
    show ?thesis
    proof (cases "rx_match (Rep True p 0 # rs) (Some c) s gs cap")
      case None
      with Cons.prems True have "rx_match rs prev (c # s) gs cap = Some y"
        by (simp only: star_Cons) (simp del: rx_match.simps)
      then show ?thesis by (rule here)
    next
      case (Some z)
      with Cons.prems True have "rx_match (Rep True p 0 # rs) (Some c) s gs cap = Some y"
        by (simp only: star_Cons) (simp del: rx_match.simps)
      from Cons.IH [OF this] obtain prev' m t
        where "s = m @ t" "rx_match rs prev' t gs cap = Some y" by blast
      then have "c # s = (c # m) @ t" by simp
      then show ?thesis using \<open>rx_match rs prev' t gs cap = Some y\<close> by blast
    qed
  next
    case False
    with Cons.prems have "rx_match rs prev (c # s) gs cap = Some y"
      by (simp only: star_Cons) (simp del: rx_match.simps)
    then show ?thesis by (rule here)
  qed
qed

lemma blank_lines_None:
  "rx_match rx_blank_lines prev s gs cap = None
     \<longleftrightarrow> \<not> (\<exists>t. s = 10 # t \<and> 2 \<le> newlines_ahead t)"
proof (cases s)
  case Nil
  then show ?thesis unfolding rx_blank_lines_def by (simp only: Ch_Nil) simp
next
  case (Cons c t)
  show ?thesis unfolding rx_blank_lines_def Cons One_nat_def
    by (simp only: Ch_Cons) (auto simp add: is_char_def mid_None simp del: rx_match.simps)
qed

lemma blank_lines_Some:
  assumes "rx_match rx_blank_lines prev s gs cap = Some (p', r, c')"
  shows "newlines_ahead r = 0 \<and> (\<exists>m. s = m @ r \<and> m \<noteq> [])"
proof -
  from assms have ne: "s \<noteq> []"
    unfolding rx_blank_lines_def by (cases s) (simp_all only: Ch_Nil, simp_all)
  then obtain c t where s: "s = c # t" by (cases s) auto
  from assms have m: "rx_match [Rep True isspace 0, Ch (is_char 10), Rep True isspace 0,
      Rep True (is_char 10) (Suc 0)] (Some c) t gs cap = Some (p', r, c')"
    unfolding rx_blank_lines_def s One_nat_def
    by (simp only: Ch_Cons split: if_splits) simp_all
  from star_Some [OF m] obtain q m1 t1 where t1: "t = m1 @ t1"
    and m2: "rx_match [Ch (is_char 10), Rep True isspace 0, Rep True (is_char 10) (Suc 0)]
       q t1 gs cap = Some (p', r, c')"
    by blast
  from m2 obtain d t2 where t2: "t1 = d # t2"
    by (cases t1) (simp_all only: Ch_Nil, simp_all)
  from m2 have m3: "rx_match [Rep True isspace 0, Rep True (is_char 10) (Suc 0)] (Some d) t2 gs cap
      = Some (p', r, c')"
    unfolding t2 by (simp only: Ch_Cons split: if_splits) simp_all
  from tail_Some [OF m3] obtain m4 where z: "newlines_ahead r = 0" and t4: "t2 = m4 @ r" by blast
  have "s = (c # m1 @ d # m4) @ r" using s t1 t2 t4 by simp
  then show ?thesis using z by blast
qed

lemma blank_sub_Nil: "re_sub rx_blank_lines repl prev [] = []"
proof -
  have "rx_match rx_blank_lines prev [] None None = None"
    by (simp only: blank_lines_None) simp
  then show ?thesis by (subst re_sub.simps) simp
qed

lemma blank_sub_skip:
  assumes "c = 10 \<Longrightarrow> newlines_ahead s \<le> 1"
  shows "re_sub rx_blank_lines repl prev (c # s) = c # re_sub rx_blank_lines repl (Some c) s"
proof -
  have "rx_match rx_blank_lines prev (c # s) None None = None"
    using assms by (simp only: blank_lines_None) auto
  then show ?thesis by (subst re_sub.simps) simp
qed

lemma blank_sub_hit:
  assumes "rx_match rx_blank_lines prev s None None = Some (p', r, c')"
  shows "re_sub rx_blank_lines two_newlines prev s
           = 10 # 10 # re_sub rx_blank_lines two_newlines p' r"
proof -
  from blank_lines_Some [OF assms] have "length r < length s" by auto
  then show ?thesis using assms by (subst re_sub.simps) (simp add: two_newlines_def)
qed

lemma blank_sub_keeps_run:
  "newlines_ahead s \<le> 2 \<Longrightarrow>
     takeWhile isspace (re_sub rx_blank_lines repl prev s) = takeWhile isspace s"
proof (induction s arbitrary: prev)
  case Nil
  show ?case by (simp only: blank_sub_Nil)
next
  case (Cons c s)
  have skip: "re_sub rx_blank_lines repl prev (c # s) = c # re_sub rx_blank_lines repl (Some c) s"
    using Cons.prems by (intro blank_sub_skip) (simp add: newlines_ahead_Cons isspace_nl)
  show ?case
  proof (cases "isspace c")
    case True
    then have "newlines_ahead s \<le> 2"
      using Cons.prems by (simp add: newlines_ahead_Cons split: if_splits)
    from Cons.IH [OF this] show ?thesis using True by (simp add: skip)
  next
    case False
    then show ?thesis by (simp add: skip)
  qed
qed

lemma blank_sub_keeps_count:
  "newlines_ahead s \<le> 2 \<Longrightarrow> newlines_ahead (re_sub rx_blank_lines repl prev s) = newlines_ahead s"
  by (simp add: newlines_ahead_def blank_sub_keeps_run)

lemma blank_sub_sparse: "sparse (re_sub rx_blank_lines two_newlines prev s)"
proof (induction "length s" arbitrary: s prev rule: less_induct)
  case less
  let ?B = "re_sub rx_blank_lines two_newlines"
  show ?case
  proof (cases "rx_match rx_blank_lines prev s None None")
    case None
    show ?thesis
    proof (cases s)
      case Nil
      then show ?thesis by (simp add: blank_sub_Nil)
    next
      case (Cons c t)
      from None have nm: "c = 10 \<Longrightarrow> newlines_ahead t \<le> 1"
        unfolding Cons by (simp only: blank_lines_None) auto
      then have skip: "?B prev (c # t) = c # ?B (Some c) t" by (rule blank_sub_skip)
      have sp: "sparse (?B (Some c) t)" using less [of t] Cons by simp
      have "newlines_ahead (c # ?B (Some c) t) \<le> 2"
      proof (cases "c = 10")
        case True
        then have "newlines_ahead (?B (Some c) t) = newlines_ahead t"
          using nm by (intro blank_sub_keeps_count) simp
        then show ?thesis using nm True by (simp add: newlines_ahead_Cons)
      next
        case False
        have "newlines_ahead (?B (Some c) t) \<le> 2"
          using sp by (cases "?B (Some c) t") (simp_all add: newlines_ahead_Nil)
        then show ?thesis using False by (simp add: newlines_ahead_Cons)
      qed
      then show ?thesis using sp by (simp add: Cons skip)
    qed
  next
    case (Some y)
    obtain p' r c' where y: "y = (p', r, c')" by (cases y)
    note m = Some [unfolded y]
    from blank_lines_Some [OF m] have z: "newlines_ahead r = 0" and len: "length r < length s"
      by auto
    have sp: "sparse (?B p' r)" using less [OF len] .
    have "newlines_ahead (?B p' r) = 0"
      using z blank_sub_keeps_count [of r two_newlines p'] by simp
    then show ?thesis using sp
      by (simp add: blank_sub_hit [OF m] newlines_ahead_Cons isspace_nl)
  qed
qed

lemma blank_sub_id: "sparse s \<Longrightarrow> re_sub rx_blank_lines repl prev s = s"
proof (induction s arbitrary: prev)
  case Nil
  show ?case by (rule blank_sub_Nil)
next
  case (Cons c s)
  have "re_sub rx_blank_lines repl prev (c # s) = c # re_sub rx_blank_lines repl (Some c) s"
    using Cons.prems by (intro blank_sub_skip) (simp add: newlines_ahead_Cons isspace_nl)
  then show ?case using Cons by simp
qed

lemma blank_sub_set: "set (re_sub rx_blank_lines two_newlines prev s) \<subseteq> insert 10 (set s)"
proof (induction "length s" arbitrary: s prev rule: less_induct)
  case less
  let ?B = "re_sub rx_blank_lines two_newlines"
  show ?case
  proof (cases "rx_match rx_blank_lines prev s None None")
    case None
    show ?thesis
    proof (cases s)
      case Nil
      then show ?thesis by (simp add: blank_sub_Nil)
    next
      case (Cons c t)
      from None have "c = 10 \<Longrightarrow> newlines_ahead t \<le> 1"
        unfolding Cons by (simp only: blank_lines_None) auto
      then have "?B prev (c # t) = c # ?B (Some c) t" by (rule blank_sub_skip)
      then show ?thesis using less [of t "Some c"] Cons by auto
    qed
  next
    case (Some y)
    obtain p' r c' where y: "y = (p', r, c')" by (cases y)
    note m = Some [unfolded y]
    from blank_lines_Some [OF m] obtain k where k: "s = k @ r" "k \<noteq> []" by blast
    then have len: "length r < length s" by simp
    have "set r \<subseteq> set s" using k by auto
    then show ?thesis using less [OF len, of p'] by (auto simp: blank_sub_hit [OF m])
  qed
qed

lemma newlines_ahead_append: "newlines_ahead s \<le> newlines_ahead (s @ u)"
  by (induction s) (simp_all add: newlines_ahead_Nil newlines_ahead_Cons)

lemma sparse_append: "sparse (s @ u) \<Longrightarrow> sparse s"
proof (induction s)
  case Nil
  show ?case by simp
next
  case (Cons c s)
  have "newlines_ahead (c # s) \<le> newlines_ahead ((c # s) @ u)"
    by (rule newlines_ahead_append)
  then show ?case using Cons by simp
qed

lemma sparse_dropWhile: "sparse s \<Longrightarrow> sparse (dropWhile p s)"
  by (induction s) (simp_all del: sparse.simps(2) add: sparse.simps(2) [of _ _, THEN iffD1, THEN conjunct2])

lemma rstrip_prefix: "\<exists>u. s = rstrip s @ u"
proof -
  have "rev s = takeWhile isspace (rev s) @ dropWhile isspace (rev s)" by simp
  then have "s = rev (dropWhile isspace (rev s)) @ rev (takeWhile isspace (rev s))"
    by (metis rev_append rev_rev_ident)
  then show ?thesis unfolding rstrip_def by blast
qed

lemma sparse_strip: "sparse s \<Longrightarrow> sparse (strip s)"
proof -
  assume "sparse s"
  then have a: "sparse (lstrip s)" unfolding lstrip_def by (rule sparse_dropWhile)
  obtain u where "lstrip s = rstrip (lstrip s) @ u" using rstrip_prefix by blast
  with a show ?thesis unfolding strip_def by (metis sparse_append)
qed

lemma set_strip: "set (strip s) \<subseteq> set s"
proof -
  have "set (rstrip t) \<subseteq> set t" for t
    unfolding rstrip_def using set_dropWhileD [of _ isspace "rev t"] by auto
  moreover have "set (lstrip s) \<subseteq> set s"
    unfolding lstrip_def using set_dropWhileD [of _ isspace s] by auto
  ultimately show ?thesis unfolding strip_def by blast
qed

lemma strip_idem: "strip (strip s) = strip s"
proof -
  let ?t = "lstrip s"
  have hd: "?t = [] \<or> \<not> isspace (hd ?t)"
    unfolding lstrip_def by (metis hd_dropWhile)
  have "lstrip (rstrip ?t) = rstrip ?t"
  proof (cases "rstrip ?t")
    case Nil
    then show ?thesis by (simp add: lstrip_def)
  next
    case (Cons a w)
    obtain u where u: "?t = rstrip ?t @ u" using rstrip_prefix by blast
    then have "?t = a # w @ u" using Cons by simp
    then have "\<not> isspace a" using hd by auto
    then show ?thesis using Cons by (simp add: lstrip_def)
  qed
  moreover have "rstrip (rstrip ?t) = rstrip ?t"
    by (simp add: rstrip_def dropWhile_idem)
  ultimately show ?thesis by (simp add: strip_def)
qed

lemma re_sub_deep_heading_id:
  assumes "35 \<notin> set s"
  shows "re_sub rx_deep_heading repl prev s = s"
proof (rule re_sub_no_match)
  fix prev' s'
  assume "set s' \<subseteq> set s"
  then have "35 \<notin> set s'" using assms by blast
  then have "rx_match [Rep True (is_char 35) (Suc 2), Rep True isspace 1] prev' s' None None = None"
    by (rule rx_match_Rep1_absent)
  then show "rx_match rx_deep_heading prev' s' None None = None"
    unfolding rx_deep_heading_def by (simp only: rx_match_Bol eval_nat_numeral simp_thms)
qed

lemma non_latin_nl: "\<not> non_latin 10"
  by (simp add: non_latin_def)

lemma normal_form:
  assumes "60 \<notin> set x" and "35 \<notin> set x"
  defines "y \<equiv> strip (re_sub rx_blank_lines two_newlines None (filter (\<lambda>c. \<not> non_latin c) x))"
  shows "clean_section_content x = y" and "clean_retrieved_content x = y"
    and "60 \<notin> set y" and "35 \<notin> set y" and "filter (\<lambda>c. \<not> non_latin c) y = y"
    and "sparse y" and "strip y = y"
proof -
  let ?f = "filter (\<lambda>c. \<not> non_latin c) x"
  let ?b = "re_sub rx_blank_lines two_newlines None ?f"
  have t: "re_sub rx_think del None x = x" using assms(1) by (rule re_sub_think_id)
  have sb: "set ?b \<subseteq> insert 10 (set ?f)" by (rule blank_sub_set)
  then have b35: "35 \<notin> set ?b" using assms(2) by auto
  show "clean_section_content x = y"
    by (simp add: clean_section_content_def t re_sub_non_latin re_sub_heading_line_id [OF b35] y_def)
  show "clean_retrieved_content x = y"
    by (simp add: clean_retrieved_content_def t re_sub_non_latin re_sub_deep_heading_id [OF b35] y_def)
  have sy: "set y \<subseteq> insert 10 (set ?f)" using sb set_strip [of ?b] unfolding y_def by blast
  show "60 \<notin> set y" using sy assms(1) by auto
  show "35 \<notin> set y" using sy assms(2) by auto
  have "\<forall>c\<in>set y. \<not> non_latin c" using sy non_latin_nl by auto
  then show "filter (\<lambda>c. \<not> non_latin c) y = y" by (simp add: filter_id_conv)
  show "sparse y" unfolding y_def by (intro sparse_strip blank_sub_sparse)
  show "strip y = y" unfolding y_def by (rule strip_idem)
qed

lemma normal_form_fixed:
  assumes "60 \<notin> set y" and "35 \<notin> set y" and "filter (\<lambda>c. \<not> non_latin c) y = y"
    and "sparse y" and "strip y = y"
  shows "clean_section_content y = y" and "clean_retrieved_content y = y"
proof -
  have t: "re_sub rx_think del None y = y" using assms(1) by (rule re_sub_think_id)
  have b: "re_sub rx_blank_lines two_newlines None y = y" using assms(4) by (rule blank_sub_id)
  show "clean_section_content y = y"
    by (simp add: clean_section_content_def t re_sub_non_latin assms(3) b
          re_sub_heading_line_id [OF assms(2)] assms(5))
  show "clean_retrieved_content y = y"
    by (simp add: clean_retrieved_content_def t re_sub_non_latin assms(3) b
          re_sub_deep_heading_id [OF assms(2)] assms(5))
qed

text \<open>
  Claim C1. On a text that contains neither \<^verbatim>\<open><\<close> (no tag) nor \<^verbatim>\<open>#\<close> (no heading
  marker) both cleaning passes are idempotent, and they agree: the tag and heading
  substitutions change nothing, the second removal of characters finds none, the result of
  the blank-line substitution has no run of whitespace with three newlines, and a stripped
  text strips to itself.
\<close>

theorem normalizer_idempotent_on_plain_text:
  assumes "60 \<notin> set x" and "35 \<notin> set x"
  shows "clean_section_content (clean_section_content x) = clean_section_content x
       \<and> clean_retrieved_content (clean_retrieved_content x) = clean_retrieved_content x
       \<and> clean_retrieved_content x = clean_section_content x"
proof -
  note n = normal_form [OF assms]
  note f = normal_form_fixed [OF n(3) n(4) n(5) n(6) n(7)]
  show ?thesis using f by (simp add: n(1) n(2))
qed

lemma plain_doc_clean:
  "clean_section_content plain_doc = of_str ''a'' @ [10, 10] @ of_str ''b''"
proof -
  have t: "re_sub rx_think del None plain_doc = plain_doc"
    by (rule re_sub_think_id) (simp add: plain_doc_def of_str_def)
  have f: "re_sub rx_non_latin del None plain_doc = plain_doc"
    by (simp add: re_sub_non_latin plain_doc_def of_str_def non_latin_def)
  have m: "rx_match rx_blank_lines (Some 97) [10, 10, 10, 98, 32] None None
      = Some (Some 10, [98, 32], None)"
    unfolding rx_blank_lines_def by (simp add: rx_eval)
  have b: "re_sub rx_blank_lines two_newlines None plain_doc = [97, 10, 10, 98, 32]"
    unfolding plain_doc_def of_str_def
    by (simp add: blank_sub_skip blank_sub_hit [OF m] blank_sub_Nil newlines_ahead_def isspace_def)
  have h: "re_sub rx_heading_line del None [97, 10, 10, 98, 32] = [97, 10, 10, 98, 32]"
    by (rule re_sub_heading_line_id) simp
  show ?thesis
    by (simp add: clean_section_content_def Let_def t f b h)
       (simp add: of_str_def strip_def lstrip_def rstrip_def isspace_def)
qed

theorem normalizer_idempotent_on_plain_text_witness:
  "clean_section_content plain_doc = of_str ''a'' @ [10, 10] @ of_str ''b''
   \<and> clean_section_content (clean_section_content plain_doc) = clean_section_content plain_doc
   \<and> clean_retrieved_content (clean_retrieved_content plain_doc)
       = clean_retrieved_content plain_doc"
proof -
  have "60 \<notin> set plain_doc" "35 \<notin> set plain_doc"
    by (simp_all add: plain_doc_def of_str_def)
  from normalizer_idempotent_on_plain_text [OF this] plain_doc_clean
  show ?thesis by blast
qed

lemma indented_heading_once: "clean_section_content indented_heading = bare_heading"
proof -
  have t: "re_sub rx_think del None indented_heading = indented_heading"
    by (rule re_sub_think_id) (simp add: indented_heading_def of_str_def)
  have f: "re_sub rx_non_latin del None indented_heading = indented_heading"
    by (simp add: re_sub_non_latin indented_heading_def of_str_def non_latin_def)
  have b: "re_sub rx_blank_lines two_newlines None indented_heading = indented_heading"
    by (rule blank_sub_id) (simp add: indented_heading_def of_str_def newlines_ahead_def isspace_def)
  have h: "re_sub rx_heading_line del None indented_heading = indented_heading"
    unfolding indented_heading_def rx_heading_line_def of_str_def
    by (simp add: re_sub.simps rx_eval del_def)
  show ?thesis
    by (simp add: clean_section_content_def Let_def t f b h)
       (simp add: indented_heading_def bare_heading_def of_str_def strip_def lstrip_def
          rstrip_def isspace_def)
qed

lemma indented_heading_twice: "clean_section_content bare_heading = of_str ''b''"
proof -
  have t: "re_sub rx_think del None bare_heading = bare_heading"
    by (rule re_sub_think_id) (simp add: bare_heading_def of_str_def)
  have f: "re_sub rx_non_latin del None bare_heading = bare_heading"
    by (simp add: re_sub_non_latin bare_heading_def of_str_def non_latin_def)
  have b: "re_sub rx_blank_lines two_newlines None bare_heading = bare_heading"
    by (rule blank_sub_id) (simp add: bare_heading_def of_str_def newlines_ahead_def isspace_def)
  have h: "re_sub rx_heading_line del None bare_heading = of_str ''b''"
    unfolding bare_heading_def rx_heading_line_def of_str_def
    by (simp add: re_sub.simps rx_eval del_def)
  show ?thesis
    by (simp add: clean_section_content_def Let_def t f b h)
       (simp add: of_str_def strip_def lstrip_def rstrip_def isspace_def)
qed

lemma indented_deep_heading_once:
  "clean_retrieved_content indented_deep_heading = bare_deep_heading"
proof -
  have t: "re_sub rx_think del None indented_deep_heading = indented_deep_heading"
    by (rule re_sub_think_id) (simp add: indented_deep_heading_def of_str_def)
  have f: "re_sub rx_non_latin del None indented_deep_heading = indented_deep_heading"
    by (simp add: re_sub_non_latin indented_deep_heading_def of_str_def non_latin_def)
  have b: "re_sub rx_blank_lines two_newlines None indented_deep_heading = indented_deep_heading"
    by (rule re_sub_blank_lines_no_nl) (simp add: indented_deep_heading_def of_str_def)
  have h: "re_sub rx_deep_heading h2_prefix None indented_deep_heading = indented_deep_heading"
    unfolding indented_deep_heading_def rx_deep_heading_def of_str_def
    by (simp add: re_sub.simps rx_eval h2_prefix_def)
  show ?thesis
    by (simp add: clean_retrieved_content_def Let_def t f b h)
       (simp add: indented_deep_heading_def bare_deep_heading_def of_str_def strip_def
          lstrip_def rstrip_def isspace_def)
qed

lemma indented_deep_heading_twice:
  "clean_retrieved_content bare_deep_heading = of_str ''## a''"
proof -
  have t: "re_sub rx_think del None bare_deep_heading = bare_deep_heading"
    by (rule re_sub_think_id) (simp add: bare_deep_heading_def of_str_def)
  have f: "re_sub rx_non_latin del None bare_deep_heading = bare_deep_heading"
    by (simp add: re_sub_non_latin bare_deep_heading_def of_str_def non_latin_def)
  have b: "re_sub rx_blank_lines two_newlines None bare_deep_heading = bare_deep_heading"
    by (rule re_sub_blank_lines_no_nl) (simp add: bare_deep_heading_def of_str_def)
  have h: "re_sub rx_deep_heading h2_prefix None bare_deep_heading = of_str ''## a''"
    unfolding bare_deep_heading_def rx_deep_heading_def of_str_def
    by (simp add: re_sub.simps rx_eval h2_prefix_def of_str_def)
  show ?thesis
    by (simp add: clean_retrieved_content_def Let_def t f b h)
       (simp add: of_str_def strip_def lstrip_def rstrip_def isspace_def)
qed

lemma nested_tag_once: "clean_section_content nested_tag = bare_tag"
proof -
  have t: "re_sub rx_think del None nested_tag = bare_tag"
    unfolding nested_tag_def bare_tag_def rx_think_def of_str_def
    by (simp add: re_sub.simps rx_eval del_def)
  have f: "re_sub rx_non_latin del None bare_tag = bare_tag"
    by (simp add: re_sub_non_latin bare_tag_def of_str_def non_latin_def)
  have b: "re_sub rx_blank_lines two_newlines None bare_tag = bare_tag"
    by (rule re_sub_blank_lines_no_nl) (simp add: bare_tag_def of_str_def)
  have h: "re_sub rx_heading_line del None bare_tag = bare_tag"
    by (rule re_sub_heading_line_id) (simp add: bare_tag_def of_str_def)
  show ?thesis
    by (simp add: clean_section_content_def Let_def t f b h)
       (simp add: bare_tag_def of_str_def strip_def lstrip_def rstrip_def isspace_def)
qed

lemma nested_tag_twice: "clean_section_content bare_tag = []"
proof -
  have t: "re_sub rx_think del None bare_tag = []"
    unfolding bare_tag_def rx_think_def of_str_def
    by (simp add: re_sub.simps rx_eval del_def)
  have f: "re_sub rx_non_latin del None [] = []"
    by (simp add: re_sub_non_latin)
  have b: "re_sub rx_blank_lines two_newlines None [] = []"
    by (rule blank_sub_Nil)
  have h: "re_sub rx_heading_line del None [] = []"
    by (rule re_sub_heading_line_id) simp
  show ?thesis
    by (simp add: clean_section_content_def Let_def t f b h)
       (simp add: strip_def lstrip_def rstrip_def)
qed

text \<open>
  Claim C1, counterexample. The stripping comes after the heading substitution, so a heading
  behind a leading space survives the first pass, stands at the start of the result, and is
  removed (\<open>clean_section_content\<close>) or rewritten (\<open>clean_retrieved_content\<close>) by the
  second pass. Removing an inner tag can also put a new tag together, which the second pass
  removes.
\<close>

theorem normalizer_not_idempotent:
  "clean_section_content indented_heading = bare_heading
   \<and> clean_section_content (clean_section_content indented_heading) = of_str ''b''
   \<and> clean_section_content (clean_section_content indented_heading)
       \<noteq> clean_section_content indented_heading
   \<and> clean_retrieved_content indented_deep_heading = bare_deep_heading
   \<and> clean_retrieved_content (clean_retrieved_content indented_deep_heading) = of_str ''## a''
   \<and> clean_retrieved_content (clean_retrieved_content indented_deep_heading)
       \<noteq> clean_retrieved_content indented_deep_heading
   \<and> clean_section_content nested_tag = bare_tag
   \<and> clean_section_content (clean_section_content nested_tag) = []
   \<and> clean_section_content (clean_section_content nested_tag)
       \<noteq> clean_section_content nested_tag"
  by (simp only: indented_heading_once indented_heading_twice indented_deep_heading_once
       indented_deep_heading_twice nested_tag_once nested_tag_twice)
     (simp add: of_str_def bare_heading_def bare_deep_heading_def bare_tag_def)
end
